theory Spec2Isabelle
  imports Complex_Main "HOL-Library.Multiset"
begin

section \<open>ROKU 1PTV Repair: the record and query model of the single-file app\<close>

text \<open>
  The development embeds the data-level logic of the React application (the file that
  starts with the comment ``ROKU 1PTV Repair -- Full Single-File App''): the record
  types, the two append-only collections kept by \<open>App\<close>, the history lookup, the
  dashboard aggregations, the CSV export, the multi-select input and the save handler
  of the repair form. Rendering, styling, PDF layout and persistence are left out.

  What the JavaScript runtime supplies is a parameter of the model, never a choice of
  the model: the parse of a date string (\<open>new Date(s).getTime()\<close>), the current
  instant (\<open>Date.now()\<close>), the local time zone, and the decimal digits the engine
  prints for a number that is not a small integer.
\<close>

subsection \<open>Strings\<close>

text \<open>
  A JavaScript string is modelled as a \<^typ>\<open>string\<close>; a \<^typ>\<open>char\<close> stands for a
  UTF-16 code unit below 256. \<open>String.prototype.trim\<close> strips white space and line
  terminators from both ends; in this range they are TAB, LF, VT, FF, CR, SPACE and
  NO-BREAK SPACE.
\<close>

definition isWhiteSpace :: "char \<Rightarrow> bool" where
  "isWhiteSpace c = ((of_char c :: nat) \<in> set [9, 10, 11, 12, 13, 32, 160])"

definition trim :: "string \<Rightarrow> string" where
  "trim s = rev (dropWhile isWhiteSpace (rev (dropWhile isWhiteSpace s)))"

subsection \<open>Numbers that may be NaN, and \<open>Array.prototype.sort\<close>\<close>

text \<open>
  \<open>new Date(s).getTime()\<close> is a number of milliseconds or \<open>NaN\<close> (an invalid date):
  \<^term>\<open>None\<close> stands for \<open>NaN\<close>. A subtraction with a \<open>NaN\<close> operand is \<open>NaN\<close>, a
  comparison with a \<open>NaN\<close> operand is false.
\<close>

type_synonym jsnumber = "int option"

fun minus_js :: "jsnumber \<Rightarrow> jsnumber \<Rightarrow> jsnumber" where
  "minus_js (Some a) (Some b) = Some (a - b)"
| "minus_js _ _ = None"

fun le_js :: "jsnumber \<Rightarrow> jsnumber \<Rightarrow> bool" where
  "le_js (Some a) (Some b) = (a \<le> b)"
| "le_js _ _ = False"

fun ge_js :: "jsnumber \<Rightarrow> jsnumber \<Rightarrow> bool" where
  "ge_js (Some a) (Some b) = (a \<ge> b)"
| "ge_js _ _ = False"

fun lt_js :: "jsnumber \<Rightarrow> jsnumber \<Rightarrow> bool" where
  "lt_js (Some a) (Some b) = (a < b)"
| "lt_js _ _ = False"

text \<open>
  \<open>xs.sort(comparefn)\<close> is a stable sort (ECMAScript 2019): \<open>a\<close> stays before \<open>b\<close>
  unless \<open>comparefn(a, b) > 0\<close>, and a comparator result \<open>NaN\<close> is read as \<open>+0\<close>. It
  is modelled as a stable insertion sort. For a comparator that is not a consistent
  ordering (it can only happen here with a \<open>NaN\<close> key) ECMAScript leaves the order to
  the implementation; the model is then one admissible behaviour, and the theorems on
  sorted output assume valid keys.
\<close>

definition cmpResult :: "jsnumber \<Rightarrow> int" where
  "cmpResult v = (case v of None \<Rightarrow> 0 | Some n \<Rightarrow> n)"

fun insertBy :: "('a \<Rightarrow> 'a \<Rightarrow> jsnumber) \<Rightarrow> 'a \<Rightarrow> 'a list \<Rightarrow> 'a list" where
  "insertBy comparefn x [] = [x]"
| "insertBy comparefn x (y # ys) =
     (if cmpResult (comparefn x y) \<le> 0 then x # y # ys else y # insertBy comparefn x ys)"

definition sort_js :: "('a \<Rightarrow> 'a \<Rightarrow> jsnumber) \<Rightarrow> 'a list \<Rightarrow> 'a list" where
  "sort_js comparefn xs = foldr (insertBy comparefn) xs []"

subsection \<open>Number values\<close>

text \<open>
  A number held in a record or in a row is an IEEE 754 double: \<open>NaN\<close>, an infinity,
  minus zero, or a finite value, kept as the rational it denotes (\<open>Finite 0\<close> is plus
  zero).
\<close>

datatype number = NaN | Infinity | NegInfinity | NegZero | Finite rat

subsection \<open>Types\<close>

datatype ChecklistStatus = Pass | Conditional | Fail | NA

record Checklist =
  labels_match :: ChecklistStatus
  safety_ok :: ChecklistStatus
  ports_intact :: ChecklistStatus
  power_symptom :: ChecklistStatus
  esd_ok :: ChecklistStatus
  cosmetic_backcover :: ChecklistStatus
  cosmetic_screen :: ChecklistStatus
  cosmetic_bezel :: ChecklistStatus
  cosmetic_base :: ChecklistStatus
  accessory_remote :: ChecklistStatus
  accessory_stand :: ChecklistStatus
  accessory_powercord :: ChecklistStatus
  accessory_screws :: ChecklistStatus

text \<open>
  \<open>sizeIn\<close> is a number (the form stores \<open>Number(v.sizeIn)\<close>, which may be \<open>NaN\<close>) or
  the empty string (\<^term>\<open>None\<close>); optional fields are
  options. The field \<open>notes\<close> is spelled \<open>notes_f\<close>, the name being reserved.
\<close>

record Intake =
  serial :: string
  family :: string
  model :: string
  sizeIn :: "number option"
  mac :: "string option"
  returnSource :: string
  returnReason :: string
  conditionIn :: string
  notes_f :: "string option"
  checklist :: Checklist
  photos :: "string list"
  createdAt :: string

datatype RepairDisposition = Repaired | Scrap | NTF | BER

record Repair =
  serial :: string
  startAt :: string
  endAt :: "string option"
  technician :: "string option"
  failureCode :: string
  actions :: "string list"
  disposition :: RepairDisposition
  notes_f :: "string option"
  photos :: "string list"

text \<open>
  \<open>CombinedRecord = { serial; intake?; repairs }\<close>. The fields carry the prefix
  \<open>rec_\<close>, so that \<open>intake\<close> and \<open>repairs\<close> stay free for the variables of the
  source.
\<close>

record CombinedRecord =
  rec_serial :: string
  rec_intake :: "Intake option"
  rec_repairs :: "Repair list"

subsection \<open>The two collections of \<open>App\<close>\<close>

text \<open>
  \<open>onSaved={(i) => setIntakes((prev) => [...prev, i])}\<close> and
  \<open>onSaved={(r) => setRepairs((prev) => [...prev, r])}\<close>: the only writes to the
  collections.
\<close>

definition setIntakes_onSaved :: "Intake \<Rightarrow> Intake list \<Rightarrow> Intake list" where
  "setIntakes_onSaved i prev = prev @ [i]"

definition setRepairs_onSaved :: "Repair \<Rightarrow> Repair list \<Rightarrow> Repair list" where
  "setRepairs_onSaved r prev = prev @ [r]"

subsection \<open>History lookup\<close>

datatype RowType = intake_row | repair_row

datatype RowData = IntakeData Intake | RepairData Repair

record Row =
  rtype :: RowType
  rwhen :: string
  rdata :: RowData

text \<open>
  \<open>History.list\<close>: the merged events of the queried serial, sorted by each row's own
  timestamp. \<open>getTime\<close> is \<open>s \<mapsto> new Date(s).getTime()\<close>.
\<close>

definition list_rows :: "(string \<Rightarrow> jsnumber) \<Rightarrow> string \<Rightarrow> Intake list \<Rightarrow> Repair list \<Rightarrow> Row list" where
  "list_rows getTime q intakes repairs =
     (let serial = trim q in
      if serial = [] then []
      else
        let a = map (\<lambda>i. \<lparr>rtype = intake_row, rwhen = createdAt i, rdata = IntakeData i\<rparr>)
                  (filter (\<lambda>i. Intake.serial i = serial) intakes);
            b = map (\<lambda>r. \<lparr>rtype = repair_row, rwhen = startAt r, rdata = RepairData r\<rparr>)
                  (filter (\<lambda>r. Repair.serial r = serial) repairs)
        in sort_js (\<lambda>x y. minus_js (getTime (rwhen x)) (getTime (rwhen y))) ([] @ a @ b))"

text \<open>
  \<open>History.combinedRec\<close>: \<open>null\<close> (\<^term>\<open>None\<close>) for a query that trims to the
  empty string; otherwise the first match of the reversed intakes, and the matching
  repairs sorted by \<open>startAt\<close>.
\<close>

definition combinedRec :: "(string \<Rightarrow> jsnumber) \<Rightarrow> string \<Rightarrow> Intake list \<Rightarrow> Repair list \<Rightarrow> CombinedRecord option" where
  "combinedRec getTime q intakes repairs =
     (let serial = trim q in
      if serial = [] then None
      else
        let intake = find (\<lambda>i. Intake.serial i = serial) (rev intakes);
            reps = sort_js (\<lambda>a b. minus_js (getTime (startAt a)) (getTime (startAt b)))
                     (filter (\<lambda>r. Repair.serial r = serial) repairs)
        in Some \<lparr>rec_serial = serial, rec_intake = intake, rec_repairs = reps\<rparr>)"

text \<open>
  The View button in the dashboard's table of recent repairs calls
  \<open>onViewSerial(r.serial)\<close>: \<open>App\<close> stores the serial in \<open>historySerial\<close> and opens
  \<open>History\<close>, whose query \<open>q\<close> starts as \<open>initialSerial || ''\<close> (\<^term>\<open>None\<close> stands for
  \<open>undefined\<close>).
\<close>

definition onViewSerial :: "string \<Rightarrow> string option" where
  "onViewSerial sn = Some sn"

definition History_q :: "string option \<Rightarrow> string" where
  "History_q initialSerial = (case initialSerial of None \<Rightarrow> [] | Some s \<Rightarrow> if s = [] then [] else s)"

subsection \<open>The multi-select input \<open>UiMultiCombo\<close>\<close>

text \<open>
  The component holds the list it edits (the prop \<open>value\<close>, here \<open>selected\<close>, which is
  the \<open>actions\<close> state of the repair form) and two states of its own, \<open>choice\<close> and
  \<open>custom\<close>. Each handler returns the state it leaves.
\<close>

record MultiCombo =
  selected :: "string list"
  choice :: string
  custom :: string

definition CUSTOM :: string where
  "CUSTOM = ''__custom__''"

definition pick :: "string \<Rightarrow> MultiCombo \<Rightarrow> MultiCombo" where
  "pick v st =
     (if v = [] then st
      else if v = CUSTOM then st\<lparr>choice := CUSTOM\<rparr>
      else (if v \<notin> set (selected st) then st\<lparr>selected := selected st @ [v]\<rparr> else st)
             \<lparr>choice := []\<rparr>)"

definition addCustom :: "MultiCombo \<Rightarrow> MultiCombo" where
  "addCustom st =
     (let v = trim (custom st) in
      if v = [] then st
      else (if v \<notin> set (selected st) then st\<lparr>selected := selected st @ [v]\<rparr> else st)
             \<lparr>custom := [], choice := []\<rparr>)"

definition remove :: "string \<Rightarrow> MultiCombo \<Rightarrow> MultiCombo" where
  "remove item st = st\<lparr>selected := filter (\<lambda>x. x \<noteq> item) (selected st)\<rparr>"

text \<open>
  The lists the input maintains: it starts from the empty \<open>actions\<close> of the form, and
  changes only through \<open>pick\<close>, typing into the custom box, \<open>addCustom\<close> and \<open>remove\<close>.
\<close>

inductive maintained :: "MultiCombo \<Rightarrow> bool" where
  initial: "maintained \<lparr>selected = [], choice = [], custom = []\<rparr>"
| picked: "maintained st \<Longrightarrow> maintained (pick v st)"
| typed: "maintained st \<Longrightarrow> maintained (st\<lparr>custom := s\<rparr>)"
| added: "maintained st \<Longrightarrow> maintained (addCustom st)"
| removed: "maintained st \<Longrightarrow> maintained (remove item st)"

subsection \<open>The repair form\<close>

text \<open>
  The state of \<open>RepairForm\<close> (its nine \<open>useState\<close> cells, with the prefix \<open>form_\<close>) and
  its submit handler \<open>save\<close>. \<open>toISOString\<close> is \<open>s \<mapsto> new Date(s).toISOString()\<close>, which
  throws a \<open>RangeError\<close> on an invalid date (\<^term>\<open>None\<close>); \<open>nowText\<close> is
  \<open>new Date().toISOString().slice(0, 16)\<close>. The handler returns what happened, the form
  state and the repairs collection it leaves (\<open>onSaved\<close> is the append of \<open>App\<close>).
\<close>

record RepairForm =
  form_serial :: string
  form_startAt :: string
  form_endAt :: string
  form_technician :: string
  form_failureCode :: string
  form_actions :: "string list"
  form_disposition :: RepairDisposition
  form_notes :: string
  form_photos :: "string list"

datatype SaveOutcome = Alert string | RangeError | Submitted

definition orUndefined :: "string \<Rightarrow> string option" where
  "orUndefined s = (if s = [] then None else Some s)"

definition save :: "(string \<Rightarrow> string option) \<Rightarrow> string \<Rightarrow> RepairForm \<Rightarrow> Repair list
    \<Rightarrow> SaveOutcome \<times> RepairForm \<times> Repair list" where
  "save toISOString nowText f repairs =
     (if form_serial f = [] then (Alert ''Serial is required'', f, repairs)
      else case toISOString (form_startAt f) of
        None \<Rightarrow> (RangeError, f, repairs)
      | Some start \<Rightarrow>
         (case (if form_endAt f \<noteq> [] then map_option Some (toISOString (form_endAt f))
                else Some None) of
            None \<Rightarrow> (RangeError, f, repairs)
          | Some end_opt \<Rightarrow>
             (Submitted,
              \<lparr>form_serial = [], form_startAt = nowText, form_endAt = [],
                 form_technician = [], form_failureCode = [], form_actions = [],
                 form_disposition = Repaired, form_notes = [], form_photos = []\<rparr>,
              setRepairs_onSaved
                \<lparr>Repair.serial = form_serial f,
                   startAt = start,
                   endAt = end_opt,
                   technician = orUndefined (form_technician f),
                   failureCode = (if form_failureCode f \<noteq> [] then form_failureCode f else ''OTHER''),
                   actions = form_actions f,
                   disposition = form_disposition f,
                   notes_f = orUndefined (form_notes f),
                   photos = form_photos f\<rparr>
                repairs)))"

subsection \<open>Dashboard: the 30-day window, yield and open holds\<close>

text \<open>
  \<open>last30\<close>: \<open>Date.now() - new Date(r.startAt).getTime() <= 30 * 24 * 3600 * 1000\<close>.
  The test has no upper bound: a repair dated after \<open>now\<close> passes it; a repair with an
  invalid date does not.
\<close>

definition last30 :: "int \<Rightarrow> (string \<Rightarrow> jsnumber) \<Rightarrow> Repair list \<Rightarrow> Repair list" where
  "last30 now getTime repairs =
     filter (\<lambda>r. le_js (minus_js (Some now) (getTime (startAt r))) (Some (30 * 24 * 3600 * 1000)))
       repairs"

text \<open>
  The yield is computed in IEEE 754 binary64, as every JavaScript number is:
  \<open>Math.round((repaired / (repaired + scrapped)) * 100)\<close> rounds the quotient to a double,
  rounds its product with 100 to a double, and \<open>Math.round\<close> then takes the integer
  nearest to that double, a tie going up. A positive double is a 53-bit mantissa times
  a power of two; \<open>roundToDouble p q\<close> is the double nearest to \<open>p / q\<close>, ties to the
  even mantissa. All values here lie between \<open>2\<^sup>-\<^sup>3\<^sup>2\<close> and 100, far from overflow and
  from the subnormal range, which the model leaves out.
\<close>

fun bitLength :: "nat \<Rightarrow> nat" where
  "bitLength n = (if n = 0 then 0 else Suc (bitLength (n div 2)))"

record Double =
  mantissa :: nat
  exponent :: int

definition roundTiesToEven :: "nat \<Rightarrow> nat \<Rightarrow> nat" where
  "roundTiesToEven num den =
     (let f = num div den; r2 = 2 * (num mod den)
      in if r2 < den then f else if den < r2 then f + 1 else if even f then f else f + 1)"

definition exponentOf :: "nat \<Rightarrow> nat \<Rightarrow> int" where
  "exponentOf p q =
     (let e0 = int (bitLength p) - int (bitLength q)
      in if (if 0 \<le> e0 then q * 2 ^ nat e0 \<le> p else q \<le> p * 2 ^ nat (- e0))
         then e0 else e0 - 1)"

definition roundToDouble :: "nat \<Rightarrow> nat \<Rightarrow> Double" where
  "roundToDouble p q =
     (let e = exponentOf p q; s = 52 - e
      in \<lparr>mantissa = (if 0 \<le> s then roundTiesToEven (p * 2 ^ nat s) q
                       else roundTiesToEven p (q * 2 ^ nat (- s))),
          exponent = e - 52\<rparr>)"

text \<open>\<open>a / b\<close> for two counts, and \<open>x * c\<close> for a double and a count.\<close>

definition divide_js :: "nat \<Rightarrow> nat \<Rightarrow> Double" where
  "divide_js a b = roundToDouble a b"

definition times_js :: "Double \<Rightarrow> nat \<Rightarrow> Double" where
  "times_js x c =
     (if 0 \<le> exponent x then roundToDouble (mantissa x * c * 2 ^ nat (exponent x)) 1
      else roundToDouble (mantissa x * c) (2 ^ nat (- exponent x)))"

definition Math_round :: "Double \<Rightarrow> int" where
  "Math_round x =
     (if 0 \<le> exponent x then int (mantissa x * 2 ^ nat (exponent x))
      else int ((2 * mantissa x + 2 ^ nat (- exponent x)) div 2 ^ nat (1 - exponent x)))"

text \<open>The real number a double stands for.\<close>

definition valD :: "Double \<Rightarrow> real" where
  "valD x = real (mantissa x) * 2 powi (exponent x)"

definition repaired :: "int \<Rightarrow> (string \<Rightarrow> jsnumber) \<Rightarrow> Repair list \<Rightarrow> nat" where
  "repaired now getTime repairs =
     length (filter (\<lambda>r. disposition r = Repaired) (last30 now getTime repairs))"

definition scrapped :: "int \<Rightarrow> (string \<Rightarrow> jsnumber) \<Rightarrow> Repair list \<Rightarrow> nat" where
  "scrapped now getTime repairs =
     length (filter (\<lambda>r. disposition r = Scrap) (last30 now getTime repairs))"

definition yieldOf :: "nat \<Rightarrow> nat \<Rightarrow> int" where
  "yieldOf rep scr =
     (if rep + scr \<noteq> 0 then Math_round (times_js (divide_js rep (rep + scr)) 100) else 0)"

definition yieldPct :: "int \<Rightarrow> (string \<Rightarrow> jsnumber) \<Rightarrow> Repair list \<Rightarrow> int" where
  "yieldPct now getTime repairs =
     yieldOf (repaired now getTime repairs) (scrapped now getTime repairs)"

text \<open>
  The yield in the words of the specification, \<open>round(100 * repaired / (repaired + scrapped))\<close>
  with a half rounded up and 0 for an empty denominator, and its window: a valid
  \<open>startAt\<close> not more than 30 times 24 hours before \<open>now\<close>.
\<close>

definition spec_yield :: "nat \<Rightarrow> nat \<Rightarrow> int" where
  "spec_yield rep scr =
     (if rep + scr = 0 then 0 else \<lfloor>100 * real rep / real (rep + scr) + 1 / 2\<rfloor>)"

definition inWindow30 :: "int \<Rightarrow> (string \<Rightarrow> jsnumber) \<Rightarrow> Repair \<Rightarrow> bool" where
  "inWindow30 now getTime r =
     (case getTime (startAt r) of None \<Rightarrow> False | Some t \<Rightarrow> now - t \<le> 30 * 24 * 3600 * 1000)"

definition openHolds :: "Intake list \<Rightarrow> nat" where
  "openHolds intakes =
     length (filter (\<lambda>v. labels_match (checklist v) = Fail
                        \<or> safety_ok (checklist v) = Fail
                        \<or> ports_intact (checklist v) = Fail
                        \<or> power_symptom (checklist v) = Fail
                        \<or> esd_ok (checklist v) = Fail) intakes)"

text \<open>
  The open-holds count in the words of the specification: the number of intakes in
  which one of the five designated checklist fields is \<open>Fail\<close>.
\<close>

definition designatedFields :: "(Checklist \<Rightarrow> ChecklistStatus) list" where
  "designatedFields = [labels_match, safety_ok, ports_intact, power_symptom, esd_ok]"

definition spec_openHolds :: "Intake list \<Rightarrow> nat" where
  "spec_openHolds intakes =
     length (filter (\<lambda>i. \<exists>field \<in> set designatedFields. field (checklist i) = Fail) intakes)"

subsection \<open>Dashboard: the 7-day throughput\<close>

text \<open>
  Local time as ECMAScript defines it: \<open>LocalTime(t) = t + LocalTZA(t, true)\<close> and
  \<open>UTC(t) = t - LocalTZA(t, false)\<close>, the offset being read at a UTC instant in the
  first and at a local time value in the second. The time zone is the pair of the two
  offset functions.
\<close>

record TimeZone =
  offsetAtUTC :: "int \<Rightarrow> int"
  offsetAtLocal :: "int \<Rightarrow> int"

definition msPerDay :: int where
  "msPerDay = 86400000"

definition LocalTime :: "TimeZone \<Rightarrow> int \<Rightarrow> int" where
  "LocalTime tz t = t + offsetAtUTC tz t"

definition UTC :: "TimeZone \<Rightarrow> int \<Rightarrow> int" where
  "UTC tz t = t - offsetAtLocal tz t"

text \<open>
  \<open>date.setHours(0, 0, 0, 0)\<close> keeps the local day and clears the time within it.
  \<open>date.setDate(date.getDate() + k)\<close> rebuilds the local time value from the year and
  month of \<open>date\<close> and the day of the month plus \<open>k\<close>, with the time within the day kept;
  \<open>MakeDay\<close> counts days linearly, so this is the local time value plus \<open>k\<close> days.
\<close>

definition setHours0 :: "TimeZone \<Rightarrow> int \<Rightarrow> int" where
  "setHours0 tz t = UTC tz ((LocalTime tz t div msPerDay) * msPerDay)"

definition setDate_getDate_plus :: "TimeZone \<Rightarrow> int \<Rightarrow> int \<Rightarrow> int" where
  "setDate_getDate_plus tz t k = UTC tz (LocalTime tz t + k * msPerDay)"

text \<open>
  One entry of \<open>days\<close>. The source keeps the label rendered from \<open>date\<close> by
  \<open>toLocaleDateString\<close>; the model keeps \<open>date\<close> itself.
\<close>

record DayCount =
  date :: int
  count :: nat

definition dayEntry :: "TimeZone \<Rightarrow> int \<Rightarrow> (string \<Rightarrow> jsnumber) \<Rightarrow> Repair list \<Rightarrow> int \<Rightarrow> DayCount" where
  "dayEntry tz now getTime repairs d =
     (let date = setDate_getDate_plus tz (setHours0 tz now) (- (6 - d));
          dayEnd = setDate_getDate_plus tz date 1
      in \<lparr>date = date,
          count = length (filter (\<lambda>r. ge_js (getTime (startAt r)) (Some date)
                                     \<and> lt_js (getTime (startAt r)) (Some dayEnd)) repairs)\<rparr>)"

definition days :: "TimeZone \<Rightarrow> int \<Rightarrow> (string \<Rightarrow> jsnumber) \<Rightarrow> Repair list \<Rightarrow> DayCount list" where
  "days tz now getTime repairs = map (dayEntry tz now getTime repairs) [0, 1, 2, 3, 4, 5, 6]"

text \<open>
  The local midnight that starts the day \<open>j\<close> days after today, as a local time value
  and as an instant; the trailing 7-day window ending today runs from the midnight that
  starts the day six days ago to the midnight that ends today.
\<close>

definition localMidnight :: "TimeZone \<Rightarrow> int \<Rightarrow> int \<Rightarrow> int" where
  "localMidnight tz now j = (LocalTime tz now div msPerDay + j) * msPerDay"

definition midnight :: "TimeZone \<Rightarrow> int \<Rightarrow> int \<Rightarrow> int" where
  "midnight tz now j = UTC tz (localMidnight tz now j)"

definition inTrailingWeek :: "TimeZone \<Rightarrow> int \<Rightarrow> (string \<Rightarrow> jsnumber) \<Rightarrow> Repair \<Rightarrow> bool" where
  "inTrailingWeek tz now getTime r =
     (ge_js (getTime (startAt r)) (Some (midnight tz now (- 6)))
      \<and> lt_js (getTime (startAt r)) (Some (midnight tz now 1)))"

text \<open>
  A week is regular when each of its eight local midnights exists (converting it to an
  instant and back gives it again) and the midnights follow one another in time. Every
  zone with a fixed offset is regular, and so is a week with a daylight-saving change
  that does not fall on a midnight. A week in which the clocks skip a midnight is not.
\<close>

definition regularWeek :: "TimeZone \<Rightarrow> int \<Rightarrow> bool" where
  "regularWeek tz now =
     ((\<forall>j \<in> set [- 6, - 5, - 4, - 3, - 2, - 1, 0, 1].
         LocalTime tz (midnight tz now j) = localMidnight tz now j)
      \<and> (\<forall>j \<in> set [- 6, - 5, - 4, - 3, - 2, - 1, 0].
         midnight tz now j \<le> midnight tz now (j + 1)))"

definition fixedOffset :: "int \<Rightarrow> TimeZone" where
  "fixedOffset off = \<lparr>offsetAtUTC = (\<lambda>t. off), offsetAtLocal = (\<lambda>t. off)\<rparr>"

subsection \<open>Dashboard: the Pareto of failure codes\<close>

text \<open>
  \<open>failCount\<close> is an ordinary object used as a dictionary. Two facts of the language
  bear on it. A read \<open>failCount[k]\<close> of a key that is not an own property falls through
  to \<open>Object.prototype\<close>, whose members are listed below; and \<open>Object.entries\<close> lists
  the own keys that are array indices first, in ascending numeric order, and the other
  keys after them in the order of their creation.
\<close>

datatype jsval =
  JUndefined | JNull | JBoolean bool | JString string | JNumber number | JObject string

text \<open>
  \<open>JObject t\<close> is an object or a function whose conversion to a string is \<open>t\<close>. The
  text of a native function is the one V8 prints.
\<close>

definition objectPrototypeFunctions :: "string list" where
  "objectPrototypeFunctions =
     [''__defineGetter__'', ''__defineSetter__'', ''hasOwnProperty'', ''__lookupGetter__'',
      ''__lookupSetter__'', ''isPrototypeOf'', ''propertyIsEnumerable'', ''toString'',
      ''valueOf'', ''toLocaleString'']"

definition inherited :: "string \<Rightarrow> jsval option" where
  "inherited k =
     (if k = ''__proto__'' then Some (JObject ''[object Object]'')
      else if k = ''constructor'' then Some (JObject ''function Object() { [native code] }'')
      else if k \<in> set objectPrototypeFunctions
        then Some (JObject (''function '' @ k @ ''() { [native code] }''))
      else None)"

definition isDigit :: "char \<Rightarrow> bool" where
  "isDigit c = (48 \<le> (of_char c :: nat) \<and> (of_char c :: nat) \<le> 57)"

definition numberOf :: "string \<Rightarrow> nat" where
  "numberOf k = foldl (\<lambda>a c. 10 * a + ((of_char c :: nat) - 48)) 0 k"

definition isArrayIndex :: "string \<Rightarrow> bool" where
  "isArrayIndex k =
     (k \<noteq> [] \<and> list_all isDigit k \<and> (k = ''0'' \<or> hd k \<noteq> CHR ''0'') \<and> numberOf k < 4294967295)"

text \<open>
  A cell of \<open>failCount\<close> is a count, or a text once \<open>+ 1\<close> has been applied to something
  that is not a number (an inherited member): \<open>(failCount[k] || 0) + 1\<close>. The assignment
  to the key \<open>__proto__\<close> runs the inherited setter, which ignores a string.
\<close>

datatype tally = Count nat | Text string

definition plusOne :: "string \<Rightarrow> (string \<times> tally) list \<Rightarrow> tally" where
  "plusOne k obj =
     (case map_of obj k of
        Some (Count n) \<Rightarrow> (if n = 0 then Count 1 else Count (n + 1))
      | Some (Text t) \<Rightarrow> (if t = [] then Count 1 else Text (t @ ''1''))
      | None \<Rightarrow>
         (case inherited k of
            Some (JObject t) \<Rightarrow> Text (t @ ''1'')
          | _ \<Rightarrow> Count 1))"

definition assign :: "string \<Rightarrow> tally \<Rightarrow> (string \<times> tally) list \<Rightarrow> (string \<times> tally) list" where
  "assign k v obj =
     (if k \<in> fst ` set obj then map (\<lambda>(k', v'). if k' = k then (k', v) else (k', v')) obj
      else if k = ''__proto__'' then obj
      else obj @ [(k, v)])"

definition failCount :: "Repair list \<Rightarrow> (string \<times> tally) list" where
  "failCount rs = foldl (\<lambda>obj r. assign (failureCode r) (plusOne (failureCode r) obj) obj) [] rs"

definition Object_entries :: "(string \<times> 'v) list \<Rightarrow> (string \<times> 'v) list" where
  "Object_entries obj =
     sort_key (\<lambda>(k, v). numberOf k) (filter (\<lambda>(k, v). isArrayIndex k) obj)
     @ filter (\<lambda>(k, v). \<not> isArrayIndex k) obj"

text \<open>\<open>b[1] - a[1]\<close>: a count is a number, a text of the kind above converts to \<open>NaN\<close>.\<close>

definition toNumber :: "tally \<Rightarrow> jsnumber" where
  "toNumber v = (case v of Count n \<Rightarrow> Some (int n) | Text t \<Rightarrow> None)"

definition pareto :: "int \<Rightarrow> (string \<Rightarrow> jsnumber) \<Rightarrow> Repair list \<Rightarrow> (string \<times> tally) list" where
  "pareto now getTime repairs =
     take 6 (sort_js (\<lambda>a b. minus_js (toNumber (snd b)) (toNumber (snd a)))
               (Object_entries (failCount (last30 now getTime repairs))))"

text \<open>
  The words of the specification: the codes of the window in the order of their first
  encounter, each with the number of repairs that carry it.
\<close>

fun firstSeen :: "'a list \<Rightarrow> 'a list" where
  "firstSeen [] = []"
| "firstSeen (x # xs) = x # filter (\<lambda>y. y \<noteq> x) (firstSeen xs)"

definition spec_counts :: "Repair list \<Rightarrow> (string \<times> nat) list" where
  "spec_counts rs =
     map (\<lambda>k. (k, length (filter (\<lambda>r. failureCode r = k) rs))) (firstSeen (map failureCode rs))"

text \<open>Sorted descending by count with a stable sort, and the first six.\<close>

definition spec_pareto :: "Repair list \<Rightarrow> (string \<times> nat) list" where
  "spec_pareto rs = take 6 (sort_key (\<lambda>(k, n). - int n) (spec_counts rs))"

text \<open>A code with its count, as a cell of \<open>failCount\<close>.\<close>

definition countCell :: "string \<times> nat \<Rightarrow> string \<times> tally" where
  "countCell = (\<lambda>(k, n). (k, Count n))"

subsection \<open>CSV export\<close>

text \<open>
  A row is a plain object: the list of its own properties in the order \<open>Object.keys\<close>
  lists them. \<open>r[h]\<close> reads an own property, else the member of \<open>Object.prototype\<close> of
  that name, else \<open>undefined\<close>.
\<close>

type_synonym row = "(string \<times> jsval) list"

definition Object_keys :: "row \<Rightarrow> string list" where
  "Object_keys r = map fst r"

definition getProp :: "row \<Rightarrow> string \<Rightarrow> jsval" where
  "getProp r h =
     (case map_of r h of
        Some v \<Rightarrow> v
      | None \<Rightarrow> (case inherited h of Some v \<Rightarrow> v | None \<Rightarrow> JUndefined))"

text \<open>\<open>new Set(xs)\<close> keeps the first occurrence of each element, in order.\<close>

definition Set_add :: "'a list \<Rightarrow> 'a \<Rightarrow> 'a list" where
  "Set_add seen x = (if x \<in> set seen then seen else seen @ [x])"

definition Array_from_Set :: "'a list \<Rightarrow> 'a list" where
  "Array_from_Set xs = foldl Set_add [] xs"

fun showNat :: "nat \<Rightarrow> string" where
  "showNat n =
     (if n < 10 then [''0123456789'' ! n] else showNat (n div 10) @ [''0123456789'' ! (n mod 10)])"

text \<open>
  \<open>String(x)\<close> of a number is \<open>Number::toString(x, 10)\<close> of ECMA-262: \<open>NaN\<close>, \<open>0\<close>
  for either zero, a minus sign and the text of \<open>-x\<close> for a negative \<open>x\<close>, \<open>Infinity\<close>,
  and for a positive finite \<open>x\<close> the shortest decimal digits that read back as \<open>x\<close>,
  laid out plainly or with an exponent (from \<open>1e+21\<close> up and below \<open>1e-6\<close>). For an
  integer below \<open>2\<^sup>5\<^sup>3\<close> these are its decimal digits: doubles are at most 1 apart
  there, so that no shorter decimal reads back as it. For every other positive value
  the text is left to the engine (ECMA-262 leaves the choice of the last digit open):
  \<open>digits\<close> is that conversion, a parameter of the model.
\<close>

definition Number_toString :: "(rat \<Rightarrow> string) \<Rightarrow> number \<Rightarrow> string" where
  "Number_toString digits x =
     (let positive = (\<lambda>q. if q = of_int \<lfloor>q\<rfloor> \<and> q < 9007199254740992
                               then showNat (nat \<lfloor>q\<rfloor>) else digits q)
      in case x of
           NaN \<Rightarrow> ''NaN''
         | Infinity \<Rightarrow> ''Infinity''
         | NegInfinity \<Rightarrow> ''-Infinity''
         | NegZero \<Rightarrow> ''0''
         | Finite q \<Rightarrow> (if q < 0 then ''-'' @ positive (- q) else positive q))"

definition String_js :: "(rat \<Rightarrow> string) \<Rightarrow> jsval \<Rightarrow> string" where
  "String_js digits v =
     (case v of
        JUndefined \<Rightarrow> ''undefined''
      | JNull \<Rightarrow> ''null''
      | JBoolean b \<Rightarrow> (if b then ''true'' else ''false'')
      | JString s \<Rightarrow> s
      | JNumber x \<Rightarrow> Number_toString digits x
      | JObject t \<Rightarrow> t)"

text \<open>\<open>v ?? ''\<close>, and \<open>s.replace(/"/g, '""')\<close>.\<close>

definition nullish_empty :: "jsval \<Rightarrow> jsval" where
  "nullish_empty v = (case v of JUndefined \<Rightarrow> JString [] | JNull \<Rightarrow> JString [] | _ \<Rightarrow> v)"

definition doubleQuotes :: "string \<Rightarrow> string" where
  "doubleQuotes s = concat (map (\<lambda>c. if c = CHR 0x22 then [CHR 0x22, CHR 0x22] else [c]) s)"

definition escape :: "(rat \<Rightarrow> string) \<Rightarrow> jsval \<Rightarrow> string" where
  "escape digits v = [CHR 0x22] @ doubleQuotes (String_js digits (nullish_empty v)) @ [CHR 0x22]"

fun join :: "string \<Rightarrow> string list \<Rightarrow> string" where
  "join sep [] = []"
| "join sep [x] = x"
| "join sep (x # y # ys) = x @ sep @ join sep (y # ys)"

text \<open>
  \<open>downloadCSV\<close> returns nothing outside a browser and for no rows; otherwise the model
  returns the file name and the text of the blob that is downloaded.
\<close>

definition downloadCSV ::
  "bool \<Rightarrow> (rat \<Rightarrow> string) \<Rightarrow> string \<Rightarrow> row list \<Rightarrow> (string \<times> string) option" where
  "downloadCSV isBrowser digits filename rows =
     (if \<not> isBrowser \<or> rows = [] then None
      else
        let headers = Array_from_Set (concat (map Object_keys rows));
            csv = join [CHR 0x0A]
                    ([join '','' headers]
                     @ map (\<lambda>r. join '','' (map (\<lambda>h. escape digits (getProp r h)) headers)) rows)
        in Some (filename, csv))"

text \<open>
  \<open>History.exportCsv\<close>, the one caller of \<open>downloadCSV\<close>: one row for each intake, then
  one row for each repair, every row an object literal with the keys below.
  \<open>x || ''\<close> of an optional string is the string, or the empty string.
\<close>

definition orEmpty :: "string option \<Rightarrow> string" where
  "orEmpty x = (case x of None \<Rightarrow> [] | Some t \<Rightarrow> t)"

definition dispositionString :: "RepairDisposition \<Rightarrow> string" where
  "dispositionString d =
     (case d of Repaired \<Rightarrow> ''Repaired'' | Scrap \<Rightarrow> ''Scrap'' | NTF \<Rightarrow> ''NTF'' | BER \<Rightarrow> ''BER'')"

definition intakeRow :: "Intake \<Rightarrow> row" where
  "intakeRow i =
     [(''kind'', JString ''intake''),
      (''serial'', JString (Intake.serial i)),
      (''model'', JString (model i)),
      (''family'', JString (family i)),
      (''sizeIn'', (case sizeIn i of None \<Rightarrow> JString [] | Some x \<Rightarrow> JNumber x)),
      (''source'', JString (returnSource i)),
      (''reason'', JString (returnReason i)),
      (''createdAt'', JString (createdAt i)),
      (''notes'', JString (orEmpty (Intake.notes_f i)))]"

definition repairRow :: "Repair \<Rightarrow> row" where
  "repairRow r =
     [(''kind'', JString ''repair''),
      (''serial'', JString (Repair.serial r)),
      (''failure'', JString (failureCode r)),
      (''actions'', JString (join ''|'' (actions r))),
      (''disposition'', JString (dispositionString (disposition r))),
      (''startAt'', JString (startAt r)),
      (''endAt'', JString (orEmpty (endAt r))),
      (''notes'', JString (orEmpty (Repair.notes_f r)))]"

definition exportCsv_rows :: "Intake list \<Rightarrow> Repair list \<Rightarrow> row list" where
  "exportCsv_rows intakes repairs = map intakeRow intakes @ map repairRow repairs"

definition exportCsv ::
  "bool \<Rightarrow> (rat \<Rightarrow> string) \<Rightarrow> Intake list \<Rightarrow> Repair list \<Rightarrow> (string \<times> string) option" where
  "exportCsv isBrowser digits intakes repairs =
     downloadCSV isBrowser digits ''repairs_history.csv'' (exportCsv_rows intakes repairs)"

text \<open>
  Reading a quoted field back: the text between the outer quotes, each pair of quotes
  read as one; \<^term>\<open>None\<close> when the field is not of that form.
\<close>

fun undouble :: "string \<Rightarrow> string option" where
  "undouble [] = Some []"
| "undouble [c] = (if c = CHR 0x22 then None else Some [c])"
| "undouble (c # d # cs) =
     (if c = CHR 0x22 then (if d = CHR 0x22 then map_option ((#) c) (undouble cs) else None)
      else map_option ((#) c) (undouble (d # cs)))"

definition unquote :: "string \<Rightarrow> string option" where
  "unquote s =
     (case s of
        [] \<Rightarrow> None
      | c # cs \<Rightarrow> (if c = CHR 0x22 \<and> cs \<noteq> [] \<and> last cs = CHR 0x22 then undouble (butlast cs) else None))"

text \<open>
  The header in the words of the specification: the union of the keys of all rows, in
  the order in which they are first seen.
\<close>

definition spec_headers :: "row list \<Rightarrow> string list" where
  "spec_headers rows = firstSeen (concat (map Object_keys rows))"

text \<open>
  The cell of a row under a header in the words of the specification: the text of the
  value between double quotes, every double quote inside it doubled; the empty string
  between double quotes for a key the row lacks.
\<close>

definition spec_cell :: "(rat \<Rightarrow> string) \<Rightarrow> row \<Rightarrow> string \<Rightarrow> string" where
  "spec_cell digits r h =
     (case map_of r h of
        Some v \<Rightarrow> [CHR 0x22] @ doubleQuotes (String_js digits (nullish_empty v)) @ [CHR 0x22]
      | None \<Rightarrow> [CHR 0x22, CHR 0x22])"

subsection \<open>Sample data for the concrete instances\<close>

text \<open>
  A finite fragment of the date parse, on strings in the format of \<open>toISOString\<close>, and
  records with every checklist field \<open>Pass\<close>.
\<close>

definition sampleGetTime :: "string \<Rightarrow> jsnumber" where
  "sampleGetTime = map_of
     [(''2023-11-01T00:00:00.000Z'', 1698796800000),
      (''2024-01-01T00:00:00.000Z'', 1704067200000),
      (''2024-01-02T09:30:00.000Z'', 1704187800000),
      (''2024-01-03T12:00:00.000Z'', 1704283200000),
      (''2024-01-05T08:00:00.000Z'', 1704441600000),
      (''2024-02-01T00:00:00.000Z'', 1706745600000)]"

definition allPass :: Checklist where
  "allPass = \<lparr>labels_match = Pass, safety_ok = Pass, ports_intact = Pass,
     power_symptom = Pass, esd_ok = Pass, cosmetic_backcover = Pass, cosmetic_screen = Pass,
     cosmetic_bezel = Pass, cosmetic_base = Pass, accessory_remote = Pass,
     accessory_stand = Pass, accessory_powercord = Pass, accessory_screws = Pass\<rparr>"

definition sampleIntake :: "string \<Rightarrow> string \<Rightarrow> Intake" where
  "sampleIntake s t = \<lparr>Intake.serial = s, family = ''Abilene'', model = ''55R6A5R'',
     sizeIn = Some (Finite 55), mac = None, returnSource = ''Amazon'', returnReason = ''No power'',
     conditionIn = ''Good'', notes_f = None, checklist = allPass, photos = [],
     createdAt = t\<rparr>"

definition sampleRepair :: "string \<Rightarrow> string \<Rightarrow> string \<Rightarrow> RepairDisposition \<Rightarrow> Repair" where
  "sampleRepair s t code d = \<lparr>Repair.serial = s, startAt = t, endAt = None,
     technician = None, failureCode = code, actions = [], disposition = d,
     notes_f = None, photos = []\<rparr>"

definition sampleIntakes :: "Intake list" where
  "sampleIntakes =
     [sampleIntake ''TV1'' ''2024-01-01T00:00:00.000Z'',
      sampleIntake ''TV2'' ''2024-01-02T09:30:00.000Z'',
      sampleIntake ''TV1'' ''2024-01-03T12:00:00.000Z'']"

definition sampleRepairs :: "Repair list" where
  "sampleRepairs =
     [sampleRepair ''TV1'' ''2024-02-01T00:00:00.000Z'' ''PSU_NO_POWER'' Scrap,
      sampleRepair ''TV2'' ''2024-01-03T12:00:00.000Z'' ''WIFI_WEAK'' Repaired,
      sampleRepair ''TV1'' ''2024-01-05T08:00:00.000Z'' ''MB_NO_BOOT'' Repaired]"

definition sampleToISOString :: "string \<Rightarrow> string option" where
  "sampleToISOString = map_of
     [(''2024-01-02T09:30'', ''2024-01-02T09:30:00.000Z''),
      (''2024-01-03T12:00'', ''2024-01-03T12:00:00.000Z'')]"

definition sampleForm :: "string \<Rightarrow> string \<Rightarrow> RepairForm" where
  "sampleForm s code = \<lparr>form_serial = s, form_startAt = ''2024-01-02T09:30'',
     form_endAt = [], form_technician = ''T-7'', form_failureCode = code,
     form_actions = [''RESEAT_FFC''], form_disposition = Repaired, form_notes = [],
     form_photos = []\<rparr>"

definition paretoRepairs :: "Repair list" where
  "paretoRepairs = map (\<lambda>code. sampleRepair ''TV1'' ''2024-01-02T09:30:00.000Z'' code Repaired)
     [''A'', ''B'', ''A'', ''B'', ''C'', ''A'', ''B'', ''A'', ''B'', ''A'', ''B'']"

text \<open>
  A finite fragment of the engine's conversion of a number to text, and two records for
  the export: an intake with a size that is not an integer and a note with quotes in
  it, and a repair with two actions.
\<close>

definition sampleDigits :: "rat \<Rightarrow> string" where
  "sampleDigits q = (if q = 85 / 2 then ''42.5'' else [])"

definition csvIntake :: Intake where
  \<open>csvIntake = \<lparr>Intake.serial = ''TV1'', family = ''Abilene'', model = ''43R6A5R'',
     sizeIn = Some (Finite (85 / 2)), mac = None, returnSource = ''Amazon'',
     returnReason = ''No power'', conditionIn = ''Good'', notes_f = Some ''say "hi"'',
     checklist = allPass, photos = [], createdAt = ''2024-01-01T00:00:00.000Z''\<rparr>\<close>

definition csvRepair :: Repair where
  "csvRepair = \<lparr>Repair.serial = ''TV1'', startAt = ''2024-01-02T09:30:00.000Z'', endAt = None,
     technician = None, failureCode = ''OTHER'', actions = [''RESEAT_FFC'', ''REFLASH''],
     disposition = Repaired, notes_f = None, photos = []\<rparr>"

text \<open>
  Repairs around the 30-day window of 5 January 2024: one older than the window, one
  dated after now, and one whose date does not parse.
\<close>

definition paretoWindowRepairs :: "Repair list" where
  "paretoWindowRepairs =
     [sampleRepair ''TV1'' ''2024-01-02T09:30:00.000Z'' ''A'' Repaired,
      sampleRepair ''TV2'' ''2024-01-03T12:00:00.000Z'' ''B'' Scrap,
      sampleRepair ''TV3'' ''2024-01-05T08:00:00.000Z'' ''C'' Repaired,
      sampleRepair ''TV4'' ''2023-11-01T00:00:00.000Z'' ''C'' Repaired,
      sampleRepair ''TV5'' ''2024-02-01T00:00:00.000Z'' ''B'' NTF,
      sampleRepair ''TV6'' ''yesterday'' ''C'' Repaired,
      sampleRepair ''TV7'' ''2024-01-01T00:00:00.000Z'' ''A'' Repaired]"

definition yieldRepairs :: "nat \<Rightarrow> nat \<Rightarrow> Repair list" where
  "yieldRepairs rep scr =
     replicate rep (sampleRepair ''TV1'' ''2024-01-02T09:30:00.000Z'' ''PSU_NO_POWER'' Repaired)
     @ replicate scr (sampleRepair ''TV2'' ''2024-01-03T12:00:00.000Z'' ''PANEL_LINES'' Scrap)"

text \<open>
  Santiago de Chile around 8 September 2024: UTC-4 until 04:00 UTC of that day, when
  the local clocks go from midnight to 01:00, and UTC-3 from then on. A local time in
  the skipped hour is read with the offset before the change.
\<close>

definition santiagoSpring2024 :: TimeZone where
  "santiagoSpring2024 =
     \<lparr>offsetAtUTC = (\<lambda>t. if t < 1725768000000 then - 14400000 else - 10800000),
        offsetAtLocal = (\<lambda>t. if t < 1725757200000 then - 14400000 else - 10800000)\<rparr>"

definition santiagoGetTime :: "string \<Rightarrow> jsnumber" where
  "santiagoGetTime = map_of [(''2024-09-09T03:30:00.000Z'', 1725852600000)]"

section \<open>Properties\<close>

subsection \<open>Sorting\<close>

lemma insertBy_insort_key:
  assumes "\<forall>y\<in>set ys. (cmpResult (comparefn x y) \<le> 0) = (f x \<le> f y)"
  shows "insertBy comparefn x ys = insort_key f x ys"
  using assms by (induction ys) auto

lemma sort_js_sort_key:
  assumes "\<forall>x\<in>set xs. \<forall>y\<in>set xs. (cmpResult (comparefn x y) \<le> 0) = (f x \<le> f y)"
  shows "sort_js comparefn xs = sort_key f xs"
  using assms
proof (induction xs)
  case Nil
  then show ?case by (simp add: sort_js_def)
next
  case (Cons x xs)
  then have ih: "sort_js comparefn xs = sort_key f xs"
    by simp
  have "sort_js comparefn (x # xs) = insertBy comparefn x (sort_key f xs)"
    using ih by (simp add: sort_js_def)
  also have "\<dots> = insort_key f x (sort_key f xs)"
    using Cons.prems by (intro insertBy_insort_key) simp
  finally show ?case by simp
qed

lemma sort_js_valid_keys:
  assumes "\<forall>x\<in>set xs. key x \<noteq> None"
  shows "sort_js (\<lambda>a b. minus_js (key a) (key b)) xs = sort_key (\<lambda>y. the (key y)) xs"
proof (intro sort_js_sort_key ballI)
  fix x y
  assume "x \<in> set xs" and "y \<in> set xs"
  then obtain a b where "key x = Some a" and "key y = Some b"
    using assms by fastforce
  then show "(cmpResult (minus_js (key x) (key y)) \<le> 0) = (the (key x) \<le> the (key y))"
    by (simp add: cmpResult_def)
qed

lemma find_rev_last:
  "find P (rev xs) = (case filter P xs of [] \<Rightarrow> None | m # ms \<Rightarrow> Some (last (m # ms)))"
  by (induction xs rule: rev_induct) (auto split: list.splits)

lemma last_is_latest:
  assumes "sorted (map f xs)" and "x \<in> set xs"
  shows "f x \<le> f (last xs)"
  using assms by (induction xs) (auto split: if_splits)

subsection \<open>First-seen order\<close>

lemma set_firstSeen [simp]: "set (firstSeen xs) = set xs"
  by (induction xs) auto

lemma distinct_firstSeen [simp]: "distinct (firstSeen xs)"
  by (induction xs) auto

lemma foldl_Set_add:
  "foldl Set_add acc xs = acc @ filter (\<lambda>y. y \<notin> set acc) (firstSeen xs)"
proof (induction xs arbitrary: acc)
  case Nil
  show ?case by simp
next
  case (Cons x xs)
  show ?case
  proof (cases "x \<in> set acc")
    case True
    then have "filter (\<lambda>y. y \<notin> set acc) (filter (\<lambda>y. y \<noteq> x) (firstSeen xs))
             = filter (\<lambda>y. y \<notin> set acc) (firstSeen xs)"
      by (auto intro: filter_cong)
    with True Cons [of acc] show ?thesis
      by (simp add: Set_add_def)
  next
    case False
    then have "filter (\<lambda>y. y \<notin> set (acc @ [x])) (firstSeen xs)
             = filter (\<lambda>y. y \<notin> set acc) (filter (\<lambda>y. y \<noteq> x) (firstSeen xs))"
      by (auto intro: filter_cong)
    with False Cons [of "acc @ [x]"] show ?thesis
      by (simp add: Set_add_def)
  qed
qed

lemma Array_from_Set_firstSeen: "Array_from_Set xs = firstSeen xs"
  by (simp add: Array_from_Set_def foldl_Set_add)

subsection \<open>History lookup\<close>

lemma list_rows_blank: "trim q = [] \<Longrightarrow> list_rows getTime q intakes repairs = []"
  by (simp add: list_rows_def)

lemma combinedRec_blank: "trim q = [] \<Longrightarrow> combinedRec getTime q intakes repairs = None"
  by (simp add: combinedRec_def)

lemma combinedRec_valid:
  assumes "trim q \<noteq> []"
    and "\<forall>r\<in>set repairs. Repair.serial r = trim q \<longrightarrow> getTime (startAt r) \<noteq> None"
  shows "combinedRec getTime q intakes repairs =
     Some \<lparr>rec_serial = trim q,
       rec_intake = (case filter (\<lambda>i. Intake.serial i = trim q) intakes of
                       [] \<Rightarrow> None | m # ms \<Rightarrow> Some (last (m # ms))),
       rec_repairs = sort_key (\<lambda>r. the (getTime (startAt r)))
                       (filter (\<lambda>r. Repair.serial r = trim q) repairs)\<rparr>"
proof -
  have "sort_js (\<lambda>a b. minus_js (getTime (startAt a)) (getTime (startAt b)))
          (filter (\<lambda>r. Repair.serial r = trim q) repairs)
        = sort_key (\<lambda>r. the (getTime (startAt r))) (filter (\<lambda>r. Repair.serial r = trim q) repairs)"
    using assms(2) by (intro sort_js_valid_keys [where key = "\<lambda>r. getTime (startAt r)"]) simp
  then show ?thesis
    using assms(1) by (simp add: combinedRec_def find_rev_last Let_def)
qed

subsection \<open>The 30-day window\<close>

lemma last30_inWindow30: "last30 now getTime repairs = filter (inWindow30 now getTime) repairs"
proof -
  have "le_js (minus_js (Some now) (getTime (startAt r))) (Some (30 * 24 * 3600 * 1000))
        = inWindow30 now getTime r" for r
    by (cases "getTime (startAt r)") (simp_all add: inWindow30_def)
  then show ?thesis
    by (simp add: last30_def)
qed

subsection \<open>C1: one intake and one repair of a serial\<close>

lemma trim_head: "trim q = c # cs \<Longrightarrow> \<not> isWhiteSpace c"
proof -
  assume t: "trim q = c # cs"
  show ?thesis
  proof (cases "dropWhile isWhiteSpace q")
    case Nil
    with t show ?thesis by (simp add: trim_def)
  next
    case (Cons x xs)
    then have x: "\<not> isWhiteSpace x"
      by (metis hd_dropWhile list.distinct(1) list.sel(1))
    have "dropWhile isWhiteSpace (rev xs @ [x]) = [x]
        \<or> dropWhile isWhiteSpace (rev xs @ [x]) = dropWhile isWhiteSpace (rev xs) @ [x]"
      using x by (simp add: dropWhile_append)
    then have "trim q = [x] \<or> trim q = x # rev (dropWhile isWhiteSpace (rev xs))"
      by (auto simp add: trim_def Cons)
    with t x show ?thesis by auto
  qed
qed

text \<open>
  For a serial \<open>S\<close> that is not empty and neither starts nor ends with white space
  (\<open>trim S = S\<close>): from empty collections, appending one intake with serial \<open>S\<close> and then
  one repair with serial \<open>S\<close>, the history lookup of \<open>S\<close> yields the combined record of
  \<open>S\<close> with exactly that intake and the one-element list of that repair.
\<close>

theorem one_intake_one_repair_combined:
  assumes "S \<noteq> []" and "trim S = S"
    and "Intake.serial i = S" and "Repair.serial r = S"
  shows "combinedRec getTime S (setIntakes_onSaved i []) (setRepairs_onSaved r [])
         = Some \<lparr>rec_serial = S, rec_intake = Some i, rec_repairs = [r]\<rparr>"
  using assms
  by (simp add: combinedRec_def setIntakes_onSaved_def setRepairs_onSaved_def sort_js_def)

theorem one_intake_one_repair_combined_witness:
  "combinedRec sampleGetTime ''TV-001''
     (setIntakes_onSaved (sampleIntake ''TV-001'' ''2024-01-01T00:00:00.000Z'') [])
     (setRepairs_onSaved (sampleRepair ''TV-001'' ''2024-01-02T09:30:00.000Z'' ''PSU_NO_POWER'' Repaired) [])
   = Some \<lparr>rec_serial = ''TV-001'',
        rec_intake = Some (sampleIntake ''TV-001'' ''2024-01-01T00:00:00.000Z''),
        rec_repairs = [sampleRepair ''TV-001'' ''2024-01-02T09:30:00.000Z'' ''PSU_NO_POWER'' Repaired]\<rparr>"
proof -
  have "''TV-001'' \<noteq> []" and "trim ''TV-001'' = ''TV-001''"
    and "Intake.serial (sampleIntake ''TV-001'' ''2024-01-01T00:00:00.000Z'') = ''TV-001''"
    and "Repair.serial (sampleRepair ''TV-001'' ''2024-01-02T09:30:00.000Z'' ''PSU_NO_POWER'' Repaired) = ''TV-001''"
    by (simp_all add: trim_def isWhiteSpace_def sampleIntake_def sampleRepair_def)
  then show ?thesis
    by (rule one_intake_one_repair_combined)
qed

text \<open>
  A serial stored with a leading or trailing white space character is out of reach of
  the history: the lookup compares the stored serials with the trimmed query, and a
  trimmed query neither starts nor ends with white space. With one intake and one repair
  stored under the serial \<open>S\<close> that is a blank followed by \<open>A\<close>, every query yields
  either no combined record or one without intake and without repairs, and an empty list
  of events.
\<close>

lemma padded_serial_unreachable:
  assumes "Intake.serial i = '' A''" and "Repair.serial r = '' A''"
  shows "combinedRec getTime q (setIntakes_onSaved i []) (setRepairs_onSaved r [])
           = (if trim q = [] then None
              else Some \<lparr>rec_serial = trim q, rec_intake = None, rec_repairs = []\<rparr>)"
    and "list_rows getTime q (setIntakes_onSaved i []) (setRepairs_onSaved r []) = []"
proof -
  have "\<not> isWhiteSpace c" if "trim q = c # cs" for c cs
    using that by (rule trim_head)
  then have n: "trim q \<noteq> '' A''"
    by (auto simp add: isWhiteSpace_def)
  then have m: "'' A'' \<noteq> trim q"
    by (rule not_sym)
  show "combinedRec getTime q (setIntakes_onSaved i []) (setRepairs_onSaved r [])
           = (if trim q = [] then None
              else Some \<lparr>rec_serial = trim q, rec_intake = None, rec_repairs = []\<rparr>)"
    using assms m
    by (simp add: combinedRec_def setIntakes_onSaved_def setRepairs_onSaved_def sort_js_def)
  show "list_rows getTime q (setIntakes_onSaved i []) (setRepairs_onSaved r []) = []"
    using assms m
    by (simp add: list_rows_def setIntakes_onSaved_def setRepairs_onSaved_def sort_js_def Let_def)
qed

text \<open>
  C1. From empty collections, one intake and then one repair are appended, both with the
  serial \<open>S\<close> that is a blank followed by \<open>A\<close>; both forms store the serial as typed.
  \<open>S\<close> is not empty, yet the history lookup of \<open>S\<close> does not yield the combined record
  of \<open>S\<close> with that intake and that repair: it trims the query, looks for \<open>A\<close>, and
  yields a record with no intake and no repairs, and no events. The same happens on the
  application's own path to the record, the View button of the dashboard, which opens the
  history with the stored serial of the repair as the query.
\<close>

theorem padded_serial_lookup_finds_nothing:
  "'' A'' \<noteq> []
   \<and> Intake.serial (sampleIntake '' A'' ''2024-01-01T00:00:00.000Z'') = '' A''
   \<and> Repair.serial (sampleRepair '' A'' ''2024-01-02T09:30:00.000Z'' ''OTHER'' Repaired) = '' A''
   \<and> combinedRec sampleGetTime '' A''
        (setIntakes_onSaved (sampleIntake '' A'' ''2024-01-01T00:00:00.000Z'') [])
        (setRepairs_onSaved (sampleRepair '' A'' ''2024-01-02T09:30:00.000Z'' ''OTHER'' Repaired) [])
      = Some \<lparr>rec_serial = ''A'', rec_intake = None, rec_repairs = []\<rparr>
   \<and> list_rows sampleGetTime '' A''
        (setIntakes_onSaved (sampleIntake '' A'' ''2024-01-01T00:00:00.000Z'') [])
        (setRepairs_onSaved (sampleRepair '' A'' ''2024-01-02T09:30:00.000Z'' ''OTHER'' Repaired) [])
      = []
   \<and> combinedRec sampleGetTime
        (History_q (onViewSerial
           (Repair.serial (sampleRepair '' A'' ''2024-01-02T09:30:00.000Z'' ''OTHER'' Repaired))))
        (setIntakes_onSaved (sampleIntake '' A'' ''2024-01-01T00:00:00.000Z'') [])
        (setRepairs_onSaved (sampleRepair '' A'' ''2024-01-02T09:30:00.000Z'' ''OTHER'' Repaired) [])
      = Some \<lparr>rec_serial = ''A'', rec_intake = None, rec_repairs = []\<rparr>"
  by (simp add: combinedRec_def list_rows_def setIntakes_onSaved_def setRepairs_onSaved_def
      sort_js_def trim_def isWhiteSpace_def sampleIntake_def sampleRepair_def History_q_def
      onViewSerial_def)

subsection \<open>C2: the combined record of the history lookup\<close>

text \<open>
  C2 (as amended). For every state of the collections and every query whose matching
  repairs carry valid dates: a query that trims to the empty string gives no combined
  record and an empty event list, not an error; any other query gives the combined
  record of the trimmed serial, whose intake is the matching intake appended last (none
  when nothing matches), and whose repairs are exactly the matching repairs, sorted
  ascending by \<open>startAt\<close>, repairs of equal \<open>startAt\<close> in their stored order. The
  intake appended last is the one created most recently whenever the \<open>createdAt\<close> of
  the matching intakes do not decrease in the order of appending.
\<close>

theorem combinedRec_last_intake_sorted_repairs:
  assumes "\<forall>r\<in>set repairs. Repair.serial r = trim q \<longrightarrow> getTime (startAt r) \<noteq> None"
  shows "(trim q = [] \<longrightarrow>
            combinedRec getTime q intakes repairs = None \<and> list_rows getTime q intakes repairs = [])
       \<and> (trim q \<noteq> [] \<longrightarrow>
            (\<exists>c. combinedRec getTime q intakes repairs = Some c
              \<and> rec_serial c = trim q
              \<and> rec_intake c = (case filter (\<lambda>i. Intake.serial i = trim q) intakes of
                                  [] \<Rightarrow> None | m # ms \<Rightarrow> Some (last (m # ms)))
              \<and> mset (rec_repairs c) = mset (filter (\<lambda>r. Repair.serial r = trim q) repairs)
              \<and> sorted (map (\<lambda>r. the (getTime (startAt r))) (rec_repairs c))
              \<and> (\<forall>t. filter (\<lambda>r. the (getTime (startAt r)) = t) (rec_repairs c)
                     = filter (\<lambda>r. the (getTime (startAt r)) = t)
                         (filter (\<lambda>r. Repair.serial r = trim q) repairs))
              \<and> (sorted (map (\<lambda>i. the (getTime (createdAt i)))
                            (filter (\<lambda>i. Intake.serial i = trim q) intakes)) \<longrightarrow>
                   (\<forall>j\<in>set intakes. Intake.serial j = trim q \<longrightarrow>
                      (\<exists>i. rec_intake c = Some i
                         \<and> the (getTime (createdAt j)) \<le> the (getTime (createdAt i)))))))"
proof (cases "trim q = []")
  case True
  then show ?thesis by (simp add: list_rows_blank combinedRec_blank)
next
  case False
  let ?ms = "filter (\<lambda>i. Intake.serial i = trim q) intakes"
  let ?c = "\<lparr>rec_serial = trim q,
       rec_intake = (case ?ms of [] \<Rightarrow> None | m # ms \<Rightarrow> Some (last (m # ms))),
       rec_repairs = sort_key (\<lambda>r. the (getTime (startAt r)))
                       (filter (\<lambda>r. Repair.serial r = trim q) repairs)\<rparr>"
  have c: "combinedRec getTime q intakes repairs = Some ?c"
    using False assms by (rule combinedRec_valid)
  have latest: "\<exists>i. rec_intake ?c = Some i
        \<and> the (getTime (createdAt j)) \<le> the (getTime (createdAt i))"
    if s: "sorted (map (\<lambda>i. the (getTime (createdAt i))) ?ms)"
      and j: "j \<in> set intakes" "Intake.serial j = trim q" for j
  proof -
    have jm: "j \<in> set ?ms" using j by simp
    then have ne: "?ms \<noteq> []" by (auto simp: filter_empty_conv)
    then have "rec_intake ?c = Some (last ?ms)" by (simp split: list.splits)
    moreover have "the (getTime (createdAt j)) \<le> the (getTime (createdAt (last ?ms)))"
      using last_is_latest [OF s jm] .
    ultimately show ?thesis by blast
  qed
  have "rec_serial ?c = trim q" by simp
  moreover have "mset (rec_repairs ?c) = mset (filter (\<lambda>r. Repair.serial r = trim q) repairs)"
    by simp
  moreover have "sorted (map (\<lambda>r. the (getTime (startAt r))) (rec_repairs ?c))"
    by simp
  moreover have "\<forall>t. filter (\<lambda>r. the (getTime (startAt r)) = t) (rec_repairs ?c)
                     = filter (\<lambda>r. the (getTime (startAt r)) = t)
                         (filter (\<lambda>r. Repair.serial r = trim q) repairs)"
    by (simp add: sort_key_stable)
  moreover have "rec_intake ?c = (case ?ms of [] \<Rightarrow> None | m # ms \<Rightarrow> Some (last (m # ms)))"
    by simp
  ultimately show ?thesis
    using False c latest by (intro conjI impI exI [of _ ?c]) blast+
qed

theorem combinedRec_last_intake_sorted_repairs_witness:
  "combinedRec sampleGetTime '' TV1 '' sampleIntakes sampleRepairs
     = Some \<lparr>rec_serial = ''TV1'',
          rec_intake = Some (sampleIntake ''TV1'' ''2024-01-03T12:00:00.000Z''),
          rec_repairs =
            [sampleRepair ''TV1'' ''2024-01-05T08:00:00.000Z'' ''MB_NO_BOOT'' Repaired,
             sampleRepair ''TV1'' ''2024-02-01T00:00:00.000Z'' ''PSU_NO_POWER'' Scrap]\<rparr>
   \<and> combinedRec sampleGetTime ''  '' sampleIntakes sampleRepairs = None
   \<and> list_rows sampleGetTime ''  '' sampleIntakes sampleRepairs = []"
proof -
  have t: "trim '' TV1 '' = ''TV1''" and b: "trim ''  '' = []"
    by (simp_all add: trim_def isWhiteSpace_def)
  have v: "\<forall>r\<in>set sampleRepairs. Repair.serial r = trim q \<longrightarrow> sampleGetTime (startAt r) \<noteq> None" for q
    by (simp add: sampleRepairs_def sampleRepair_def sampleGetTime_def)
  from combinedRec_last_intake_sorted_repairs [OF v, of "'' TV1 ''" sampleIntakes]
  obtain c where c: "combinedRec sampleGetTime '' TV1 '' sampleIntakes sampleRepairs = Some c"
    and "rec_serial c = ''TV1''"
    and "rec_intake c = (case filter (\<lambda>i. Intake.serial i = ''TV1'') sampleIntakes of
                                  [] \<Rightarrow> None | m # ms \<Rightarrow> Some (last (m # ms)))"
    unfolding t by auto
  have 1: "combinedRec sampleGetTime '' TV1 '' sampleIntakes sampleRepairs
     = Some \<lparr>rec_serial = ''TV1'',
          rec_intake = Some (sampleIntake ''TV1'' ''2024-01-03T12:00:00.000Z''),
          rec_repairs =
            [sampleRepair ''TV1'' ''2024-01-05T08:00:00.000Z'' ''MB_NO_BOOT'' Repaired,
             sampleRepair ''TV1'' ''2024-02-01T00:00:00.000Z'' ''PSU_NO_POWER'' Scrap]\<rparr>"
    by (simp add: combinedRec_def t sampleIntakes_def sampleRepairs_def sampleIntake_def
        sampleRepair_def sampleGetTime_def sort_js_def cmpResult_def Let_def)
  from combinedRec_last_intake_sorted_repairs [OF v, of "''  ''" sampleIntakes]
  have 2: "combinedRec sampleGetTime ''  '' sampleIntakes sampleRepairs = None
       \<and> list_rows sampleGetTime ''  '' sampleIntakes sampleRepairs = []"
    unfolding b by simp
  from 1 2 show ?thesis by simp
qed

text \<open>
  C2 as stated fails where an intake appended later carries an earlier \<open>createdAt\<close>:
  the lookup takes the one appended last, not the one created most recently.
\<close>

theorem most_recent_by_createdAt_counterexample:
  "combinedRec sampleGetTime ''A''
      [sampleIntake ''A'' ''2024-02-01T00:00:00.000Z'', sampleIntake ''A'' ''2024-01-01T00:00:00.000Z'']
      []
     = Some \<lparr>rec_serial = ''A'',
          rec_intake = Some (sampleIntake ''A'' ''2024-01-01T00:00:00.000Z''),
          rec_repairs = []\<rparr>
   \<and> Intake.serial (sampleIntake ''A'' ''2024-02-01T00:00:00.000Z'') = ''A''
   \<and> sampleGetTime (createdAt (sampleIntake ''A'' ''2024-02-01T00:00:00.000Z'')) = Some 1706745600000
   \<and> sampleGetTime (createdAt (sampleIntake ''A'' ''2024-01-01T00:00:00.000Z'')) = Some 1704067200000
   \<and> (1704067200000 :: int) < 1706745600000"
  by (simp add: combinedRec_def trim_def isWhiteSpace_def sampleIntake_def sampleGetTime_def
      sort_js_def Let_def)

subsection \<open>C3: the multi-select input keeps a duplicate-free list\<close>


lemma maintained_distinct: "maintained st \<Longrightarrow> distinct (selected st)"
  by (induction rule: maintained.induct)
    (auto simp: pick_def addCustom_def remove_def Let_def)

lemma filter_neq_remove1: "distinct xs \<Longrightarrow> filter (\<lambda>x. x \<noteq> v) xs = remove1 v xs"
  by (induction xs) (auto simp: remove1_idem)

text \<open>
  C3. For every list maintained by the multi-select input and every value \<open>v\<close>: when
  \<open>v\<close> is already in the list, adding it (by \<open>pick\<close>, or by \<open>addCustom\<close> of a text that
  trims to \<open>v\<close>) leaves the list unchanged, and removing it removes exactly one entry,
  the one occurrence of \<open>v\<close>, and nothing else (\<open>remove\<close> is offered for the entries of
  the list; for a value not in the list it changes nothing). Adding \<open>RESEAT_FFC\<close> twice
  to the empty list gives a one-element list, and removing it then gives the empty
  list.
\<close>

theorem multi_select_set_semantics:
  assumes "maintained st"
  shows "(v \<in> set (selected st) \<longrightarrow>
            selected (pick v st) = selected st
          \<and> (\<forall>c. trim c = v \<longrightarrow> selected (addCustom (st\<lparr>custom := c\<rparr>)) = selected st)
          \<and> selected (remove v st) = remove1 v (selected st)
          \<and> length (selected st) = Suc (length (selected (remove v st)))
          \<and> v \<notin> set (selected (remove v st))
          \<and> mset (selected (remove v st)) = mset (selected st) - {#v#})
       \<and> (v \<notin> set (selected st) \<longrightarrow> selected (remove v st) = selected st)
       \<and> selected (pick ''RESEAT_FFC'' (pick ''RESEAT_FFC'' \<lparr>selected = [], choice = [], custom = []\<rparr>))
           = [''RESEAT_FFC'']
       \<and> selected (remove ''RESEAT_FFC''
            (pick ''RESEAT_FFC'' (pick ''RESEAT_FFC'' \<lparr>selected = [], choice = [], custom = []\<rparr>)))
           = []"
proof -
  have d: "distinct (selected st)"
    using assms by (rule maintained_distinct)
  have r: "selected (remove v st) = remove1 v (selected st)"
    using d by (simp add: remove_def filter_neq_remove1)
  have "selected (pick v st) = selected st
      \<and> (\<forall>c. trim c = v \<longrightarrow> selected (addCustom (st\<lparr>custom := c\<rparr>)) = selected st)
      \<and> selected (remove v st) = remove1 v (selected st)
      \<and> length (selected st) = Suc (length (selected (remove v st)))
      \<and> v \<notin> set (selected (remove v st))
      \<and> mset (selected (remove v st)) = mset (selected st) - {#v#}"
    if v: "v \<in> set (selected st)"
  proof (intro conjI allI impI)
    show "selected (pick v st) = selected st"
      using v by (simp add: pick_def)
    show "selected (addCustom (st\<lparr>custom := c\<rparr>)) = selected st" if "trim c = v" for c
      using v that by (simp add: addCustom_def Let_def)
    show "selected (remove v st) = remove1 v (selected st)"
      by (rule r)
    show "length (selected st) = Suc (length (selected (remove v st)))"
      using v by (simp add: r length_remove1) (metis Suc_pred length_pos_if_in_set)
    show "v \<notin> set (selected (remove v st))"
      by (simp add: remove_def)
    show "mset (selected (remove v st)) = mset (selected st) - {#v#}"
      by (simp add: r)
  qed
  moreover have "selected (remove v st) = selected st" if "v \<notin> set (selected st)"
    using that by (simp add: r remove1_idem)
  moreover have "selected (pick ''RESEAT_FFC'' (pick ''RESEAT_FFC'' \<lparr>selected = [], choice = [], custom = []\<rparr>))
           = [''RESEAT_FFC'']"
    by (simp add: pick_def CUSTOM_def)
  moreover have "selected (remove ''RESEAT_FFC''
            (pick ''RESEAT_FFC'' (pick ''RESEAT_FFC'' \<lparr>selected = [], choice = [], custom = []\<rparr>)))
           = []"
    by (simp add: pick_def remove_def CUSTOM_def)
  ultimately show ?thesis by blast
qed

theorem multi_select_set_semantics_witness:
  "maintained (pick ''REPLACE_MB'' (pick ''RESEAT_FFC'' \<lparr>selected = [], choice = [], custom = []\<rparr>))
   \<and> selected (pick ''REPLACE_MB'' (pick ''RESEAT_FFC'' \<lparr>selected = [], choice = [], custom = []\<rparr>))
       = [''RESEAT_FFC'', ''REPLACE_MB'']
   \<and> selected (pick ''RESEAT_FFC''
        (pick ''REPLACE_MB'' (pick ''RESEAT_FFC'' \<lparr>selected = [], choice = [], custom = []\<rparr>)))
       = [''RESEAT_FFC'', ''REPLACE_MB'']
   \<and> selected (remove ''RESEAT_FFC''
        (pick ''REPLACE_MB'' (pick ''RESEAT_FFC'' \<lparr>selected = [], choice = [], custom = []\<rparr>)))
       = [''REPLACE_MB'']"
proof -
  let ?st = "pick ''REPLACE_MB'' (pick ''RESEAT_FFC'' \<lparr>selected = [], choice = [], custom = []\<rparr>)"
  have m: "maintained ?st"
    by (intro maintained.picked maintained.initial)
  have s: "selected ?st = [''RESEAT_FFC'', ''REPLACE_MB'']"
    by (simp add: pick_def CUSTOM_def)
  from multi_select_set_semantics [OF m, of "''RESEAT_FFC''"] s
  have "selected (pick ''RESEAT_FFC'' ?st) = [''RESEAT_FFC'', ''REPLACE_MB'']"
    and "selected (remove ''RESEAT_FFC'' ?st) = [''REPLACE_MB'']"
    by simp_all
  with m s show ?thesis by simp
qed

subsection \<open>C4: the 30-day repair yield\<close>

text \<open>The equation of \<open>bitLength\<close> is unfolded by hand, one step at a time.\<close>

declare bitLength.simps [simp del]

lemma bitLength_bounds:
  "0 < n \<Longrightarrow> 2 ^ (bitLength n - 1) \<le> n \<and> n < 2 ^ bitLength n"
proof (induction n rule: bitLength.induct)
  case (1 n)
  show ?case
  proof (cases "n div 2 = 0")
    case True
    with "1.prems" have "n = 1" by (simp add: div_eq_0_iff) 
    then show ?thesis
      by (simp add: bitLength.simps [of "Suc 0"] bitLength.simps [of 0])
  next
    case False
    let ?b = "bitLength (n div 2)"
    have ih: "2 ^ (?b - 1) \<le> n div 2 \<and> n div 2 < 2 ^ ?b"
      using "1.IH" "1.prems" False by simp
    have b: "bitLength n = Suc ?b"
      using "1.prems" by (simp add: bitLength.simps [of n])
    have pos: "0 < ?b"
      using False by (simp add: bitLength.simps [of "n div 2"])
    then have "(2::nat) ^ ?b = 2 * 2 ^ (?b - 1)"
      by (cases ?b) simp_all
    with ih have "2 ^ ?b \<le> 2 * (n div 2)" by simp
    then have lo: "2 ^ ?b \<le> n" by linarith
    from ih have "n div 2 + 1 \<le> 2 ^ ?b" by simp
    then have hi: "n < 2 * 2 ^ ?b" by linarith
    from lo hi b show ?thesis by simp
  qed
qed

lemma roundTiesToEven_error:
  assumes "0 < den"
  shows "\<bar>real (roundTiesToEven num den) - real num / real den\<bar> \<le> 1 / 2"
proof -
  let ?f = "num div den" and ?r = "num mod den"
  have n: "real num = real den * real ?f + real ?r"
    by (metis of_nat_add of_nat_mult mult_div_mod_eq)
  have q: "real num / real den = real ?f + real ?r / real den"
    using assms by (simp add: n field_simps)
  have r: "real ?r < real den"
    using assms by simp
  consider "2 * ?r < den" | "den < 2 * ?r" | "2 * ?r = den" by linarith
  then show ?thesis
  proof cases
    case 1
    then have "2 * real ?r < real den" by (metis of_nat_less_iff of_nat_mult of_nat_numeral)
    with assms 1 show ?thesis
      by (simp add: roundTiesToEven_def Let_def q field_simps)
  next
    case 2
    then have "real den < 2 * real ?r" by (metis of_nat_less_iff of_nat_mult of_nat_numeral)
    with assms 2 r show ?thesis
      by (simp add: roundTiesToEven_def Let_def q field_simps abs_if)
  next
    case 3
    then have "2 * real ?r = real den" by (metis of_nat_mult of_nat_numeral)
    with assms 3 show ?thesis
      by (simp add: roundTiesToEven_def Let_def q field_simps abs_if)
  qed
qed

lemma powi_nat: "0 \<le> k \<Longrightarrow> (2::real) powi k = 2 ^ nat k"
  by (simp add: power_int_def)

lemma powi_neg_nat: "k < 0 \<Longrightarrow> (2::real) powi k = 1 / 2 ^ nat (- k)"
  by (simp add: power_int_def field_simps)

lemma exponentOf_test:
  assumes "0 < q"
  shows "(if 0 \<le> e0 then q * 2 ^ nat e0 \<le> p else q \<le> p * 2 ^ nat (- e0))
         \<longleftrightarrow> (2::real) powi e0 \<le> real p / real q"
proof (cases "0 \<le> e0")
  case True
  have "(q * 2 ^ nat e0 \<le> p) = (real q * 2 ^ nat e0 \<le> real p)"
    by (metis of_nat_le_iff of_nat_mult of_nat_numeral of_nat_power)
  with True assms show ?thesis
    by (simp add: powi_nat field_simps)
next
  case False
  have "(q \<le> p * 2 ^ nat (- e0)) = (real q \<le> real p * 2 ^ nat (- e0))"
    by (metis of_nat_le_iff of_nat_mult of_nat_numeral of_nat_power)
  with False assms show ?thesis
    by (simp add: powi_neg_nat field_simps)
qed

lemma real_two_power_le: "2 ^ k \<le> n \<Longrightarrow> (2::real) ^ k \<le> real n"
  using of_nat_mono [of "2 ^ k" n, where 'a = real] by simp

lemma real_less_two_power: "n < 2 ^ k \<Longrightarrow> real n < (2::real) ^ k"
  using of_nat_less_iff [of n "2 ^ k", where 'a = real] by simp

lemma powi_mult: "(2::real) powi a * 2 powi b = 2 powi (a + b)"
  by (simp add: power_int_add)

lemma bitLength_real_bounds:
  assumes "0 < n"
  shows "(2::real) powi (int (bitLength n) - 1) \<le> real n"
    and "real n < 2 powi (int (bitLength n))"
proof -
  have b: "2 ^ (bitLength n - 1) \<le> n" "n < 2 ^ bitLength n"
    using bitLength_bounds [OF assms] by simp_all
  have "0 < bitLength n"
    using assms by (simp add: bitLength.simps [of n])
  then have "int (bitLength n) - 1 = int (bitLength n - 1)"
    by simp
  then have "(2::real) powi (int (bitLength n) - 1) = 2 ^ (bitLength n - 1)"
    by (simp only: power_int_of_nat)
  with real_two_power_le [OF b(1)] show "(2::real) powi (int (bitLength n) - 1) \<le> real n"
    by simp
  from real_less_two_power [OF b(2)] show "real n < 2 powi (int (bitLength n))"
    by simp
qed

lemma exponentOf_cases:
  assumes "0 < q"
  shows "exponentOf p q =
     (if (2::real) powi (int (bitLength p) - int (bitLength q)) \<le> real p / real q
      then int (bitLength p) - int (bitLength q)
      else int (bitLength p) - int (bitLength q) - 1)"
  unfolding exponentOf_def Let_def exponentOf_test [OF assms] ..

lemma exponentOf_bounds:
  assumes "0 < p" and "0 < q"
  shows "(2::real) powi (exponentOf p q) \<le> real p / real q"
    and "real p / real q < 2 powi (exponentOf p q + 1)"
proof -
  let ?e0 = "int (bitLength p) - int (bitLength q)"
  note rp = bitLength_real_bounds [OF assms(1)]
  note rq = bitLength_real_bounds [OF assms(2)]
  have qpos: "0 < real q" using assms by simp
  have e1: "?e0 - 1 + int (bitLength q) = int (bitLength p) - 1" by simp
  have e2: "?e0 + 1 + (int (bitLength q) - 1) = int (bitLength p)" by simp
  have lower0: "(2::real) powi (?e0 - 1) \<le> real p / real q"
  proof -
    have "(2::real) powi (?e0 - 1) * real q \<le> 2 powi (?e0 - 1) * 2 powi (int (bitLength q))"
      using rq(2) by (intro mult_left_mono) simp_all
    also have "\<dots> = 2 powi (int (bitLength p) - 1)"
      using powi_mult [of "?e0 - 1" "int (bitLength q)"] by (simp only: e1)
    also have "\<dots> \<le> real p" by (rule rp(1))
    finally have "(2::real) powi (?e0 - 1) * real q \<le> real p" .
    then show ?thesis using qpos by (simp add: pos_le_divide_eq)
  qed
  have upper0: "real p / real q < 2 powi (?e0 + 1)"
  proof -
    have "real p < 2 powi (int (bitLength p))" by (rule rp(2))
    also have "\<dots> = 2 powi (?e0 + 1) * 2 powi (int (bitLength q) - 1)"
      using powi_mult [of "?e0 + 1" "int (bitLength q) - 1"] by (simp only: e2)
    also have "\<dots> \<le> 2 powi (?e0 + 1) * real q"
      using rq(1) by (intro mult_left_mono) simp_all
    finally have "real p < 2 powi (?e0 + 1) * real q" .
    then show ?thesis using qpos by (simp add: pos_divide_less_eq)
  qed
  show "(2::real) powi (exponentOf p q) \<le> real p / real q"
  proof (cases "(2::real) powi ?e0 \<le> real p / real q")
    case True
    then show ?thesis by (simp add: exponentOf_cases [OF assms(2)])
  next
    case False
    with lower0 show ?thesis by (simp add: exponentOf_cases [OF assms(2)])
  qed
  show "real p / real q < 2 powi (exponentOf p q + 1)"
  proof (cases "(2::real) powi ?e0 \<le> real p / real q")
    case True
    with upper0 show ?thesis by (simp add: exponentOf_cases [OF assms(2)])
  next
    case False
    then show ?thesis by (simp add: exponentOf_cases [OF assms(2)])
  qed
qed

lemma roundToDouble_scaled:
  assumes "0 < q"
  shows "\<bar>real (mantissa (roundToDouble p q)) - real p / real q * 2 powi (52 - exponentOf p q)\<bar> \<le> 1 / 2"
proof (cases "0 \<le> 52 - exponentOf p q")
  case True
  have "\<bar>real (roundTiesToEven (p * 2 ^ nat (52 - exponentOf p q)) q)
         - real (p * 2 ^ nat (52 - exponentOf p q)) / real q\<bar> \<le> 1 / 2"
    using assms by (rule roundTiesToEven_error)
  with True show ?thesis
    by (simp add: roundToDouble_def Let_def powi_nat)
next
  case False
  have "\<bar>real (roundTiesToEven p (q * 2 ^ nat (- (52 - exponentOf p q))))
         - real p / real (q * 2 ^ nat (- (52 - exponentOf p q)))\<bar> \<le> 1 / 2"
    using assms by (intro roundTiesToEven_error) simp
  with False show ?thesis
    by (simp add: roundToDouble_def Let_def powi_neg_nat)
qed

lemma valD_roundToDouble:
  "valD (roundToDouble p q) = real (mantissa (roundToDouble p q)) * 2 powi (exponentOf p q - 52)"
  by (simp add: valD_def roundToDouble_def Let_def)

lemma roundToDouble_error:
  assumes "0 < p" and "0 < q"
  shows "\<bar>valD (roundToDouble p q) - real p / real q\<bar> \<le> real p / real q / 2 ^ 53"
proof -
  let ?e = "exponentOf p q"
  let ?m = "real (mantissa (roundToDouble p q))"
  let ?x = "real p / real q"
  have s: "\<bar>?m - ?x * 2 powi (52 - ?e)\<bar> \<le> 1 / 2"
    using assms(2) by (rule roundToDouble_scaled)
  have "\<bar>valD (roundToDouble p q) - ?x\<bar> = \<bar>(?m - ?x * 2 powi (52 - ?e)) * 2 powi (?e - 52)\<bar>"
    by (simp add: valD_roundToDouble left_diff_distrib mult.assoc power_int_add [symmetric])
  also have "\<dots> = \<bar>?m - ?x * 2 powi (52 - ?e)\<bar> * 2 powi (?e - 52)"
    by (simp add: abs_mult)
  also have "\<dots> \<le> 1 / 2 * 2 powi (?e - 52)"
    using s by (intro mult_right_mono) simp_all
  also have "\<dots> = 2 powi ?e / 2 ^ 53"
    by (simp add: power_int_diff)
  also have "\<dots> \<le> ?x / 2 ^ 53"
    using exponentOf_bounds(1) [OF assms] by (simp add: divide_right_mono)
  finally show ?thesis .
qed

lemma roundToDouble_zero: "0 < q \<Longrightarrow> mantissa (roundToDouble 0 q) = 0"
  by (simp add: roundToDouble_def roundTiesToEven_def Let_def)

lemma Math_round_floor: "Math_round x = \<lfloor>valD x + 1 / 2\<rfloor>"
proof (cases "0 \<le> exponent x")
  case True
  have "valD x = real (mantissa x * 2 ^ nat (exponent x))"
    using True by (simp add: valD_def powi_nat)
  then have "\<lfloor>valD x + 1 / 2\<rfloor> = int (mantissa x * 2 ^ nat (exponent x))"
    by (simp only: floor_eq_iff) simp
  with True show ?thesis
    by (simp add: Math_round_def)
next
  case False
  let ?k = "nat (- exponent x)"
  have k: "nat (1 - exponent x) = Suc ?k"
    using False by simp
  have "valD x + 1 / 2 = real (2 * mantissa x + 2 ^ ?k) / real (2 ^ Suc ?k)"
    using False by (simp add: valD_def powi_neg_nat field_simps)
  then have "\<lfloor>valD x + 1 / 2\<rfloor> = int ((2 * mantissa x + 2 ^ ?k) div 2 ^ Suc ?k)"
    by (simp only: floor_divide_of_nat_eq)
  with False k show ?thesis
    by (simp add: Math_round_def)
qed

lemma times_js_zero: "mantissa x = 0 \<Longrightarrow> mantissa (times_js x c) = 0"
  by (simp add: times_js_def roundToDouble_zero)

lemma times_js_error:
  assumes "0 < mantissa x" and "0 < c"
  shows "\<bar>valD (times_js x c) - valD x * real c\<bar> \<le> valD x * real c / 2 ^ 53"
proof (cases "0 \<le> exponent x")
  case True
  have "real (mantissa x * c * 2 ^ nat (exponent x)) / real 1 = valD x * real c"
    using True by (simp add: valD_def powi_nat)
  moreover have "\<bar>valD (roundToDouble (mantissa x * c * 2 ^ nat (exponent x)) 1)
         - real (mantissa x * c * 2 ^ nat (exponent x)) / real 1\<bar>
       \<le> real (mantissa x * c * 2 ^ nat (exponent x)) / real 1 / 2 ^ 53"
    using assms by (intro roundToDouble_error) simp_all
  ultimately show ?thesis
    using True by (simp only: times_js_def if_True)
next
  case False
  have "real (mantissa x * c) / real (2 ^ nat (- exponent x)) = valD x * real c"
    using False by (simp add: valD_def powi_neg_nat)
  moreover have "\<bar>valD (roundToDouble (mantissa x * c) (2 ^ nat (- exponent x)))
         - real (mantissa x * c) / real (2 ^ nat (- exponent x))\<bar>
       \<le> real (mantissa x * c) / real (2 ^ nat (- exponent x)) / 2 ^ 53"
    using assms by (intro roundToDouble_error) simp_all
  ultimately show ?thesis
    using False by (simp only: times_js_def if_False)
qed

lemma valD_nonneg: "0 \<le> valD x"
  by (simp add: valD_def)

lemma valD_pos_mantissa: "0 < valD x \<Longrightarrow> 0 < mantissa x"
  by (cases "mantissa x = 0") (simp_all add: valD_def)

text \<open>The double product is within \<open>100 * 2\<^sup>-\<^sup>5\<^sup>3 * (2 + 2\<^sup>-\<^sup>5\<^sup>3)\<close> of the exact percentage.\<close>

lemma product_error:
  assumes "0 < rep" and "rep \<le> n"
  shows "\<bar>valD (times_js (divide_js rep n) 100) - 100 * real rep / real n\<bar> \<le> 201 / 2 ^ 53"
proof -
  let ?a = "real rep / real n"
  let ?v1 = "valD (divide_js rep n)"
  let ?v2 = "valD (times_js (divide_js rep n) 100)"
  let ?u = "1 / 2 ^ 53 :: real"
  have npos: "0 < n" using assms by simp
  have a: "0 < ?a" "?a \<le> 1"
    using assms by simp_all
  have e1: "\<bar>?v1 - ?a\<bar> \<le> ?a * ?u"
    using roundToDouble_error [OF assms(1) npos] by (simp add: divide_js_def)
  then have v1: "?a * (1 - ?u) \<le> ?v1" "?v1 \<le> ?a * (1 + ?u)"
    by (simp_all add: abs_le_iff algebra_simps)
  have "0 < ?a * (1 - ?u)"
    using a(1) by (intro mult_pos_pos) simp_all
  with v1(1) have "0 < ?v1" by linarith
  then have m: "0 < mantissa (divide_js rep n)"
    by (rule valD_pos_mantissa)
  have "\<bar>?v2 - ?v1 * real (100::nat)\<bar> \<le> ?v1 * real (100::nat) / 2 ^ 53"
    using m by (intro times_js_error) simp_all
  then have e2: "\<bar>?v2 - 100 * ?v1\<bar> \<le> 100 * ?v1 * ?u"
    by (simp add: mult.commute)
  have "?a * (1 + ?u) \<le> 1 * (1 + ?u)"
    using a(2) by (intro mult_right_mono) simp_all
  then have "?a * (1 + ?u) \<le> 1 + ?u"
    by (simp only: mult_1)
  with v1(2) have v1': "?v1 \<le> 1 + ?u"
    by (rule order_trans)
  have "100 * ?v1 * ?u \<le> 100 * (1 + ?u) * ?u"
    using v1' by (intro mult_right_mono mult_left_mono) simp_all
  with e2 have e2': "\<bar>?v2 - 100 * ?v1\<bar> \<le> 100 * (1 + ?u) * ?u"
    by linarith
  have "?a * ?u \<le> ?u"
    using a by (simp add: mult_left_le_one_le)
  with e1 have e1': "\<bar>?v1 - ?a\<bar> \<le> ?u" by linarith
  have "?v2 - 100 * ?a = (?v2 - 100 * ?v1) + 100 * (?v1 - ?a)"
    by (simp add: algebra_simps)
  then have "\<bar>?v2 - 100 * ?a\<bar> \<le> \<bar>?v2 - 100 * ?v1\<bar> + \<bar>100 * (?v1 - ?a)\<bar>"
    by (simp only: abs_triangle_ineq)
  also have "\<bar>100 * (?v1 - ?a)\<bar> = 100 * \<bar>?v1 - ?a\<bar>"
    by (simp only: abs_mult abs_numeral)
  also have "\<bar>?v2 - 100 * ?v1\<bar> + 100 * \<bar>?v1 - ?a\<bar> \<le> 100 * (1 + ?u) * ?u + 100 * ?u"
    using e1' e2' by (intro add_mono mult_left_mono) simp_all
  also have "\<dots> \<le> 201 / 2 ^ 53"
    by simp
  finally show ?thesis by simp
qed

lemma yieldOf_no_repaired: "yieldOf 0 scr = 0"
proof (cases "scr = 0")
  case True
  then show ?thesis by (simp add: yieldOf_def)
next
  case False
  then have "mantissa (divide_js 0 scr) = 0"
    by (simp add: divide_js_def roundToDouble_zero)
  then have "mantissa (times_js (divide_js 0 scr) 100) = 0"
    by (rule times_js_zero)
  then have "valD (times_js (divide_js 0 scr) 100) = 0"
    by (simp add: valD_def)
  then have "Math_round (times_js (divide_js 0 scr) 100) = 0"
    by (simp add: Math_round_floor)
  with False show ?thesis by (simp add: yieldOf_def)
qed

lemma yieldOf_floor:
  assumes "rep \<noteq> 0"
  shows "yieldOf rep scr = \<lfloor>valD (times_js (divide_js rep (rep + scr)) 100) + 1 / 2\<rfloor>"
  using assms by (simp add: yieldOf_def Math_round_floor)

lemma product_window:
  fixes rep scr :: nat
  assumes "rep \<noteq> 0"
  defines "v \<equiv> valD (times_js (divide_js rep (rep + scr)) 100)"
    and "a \<equiv> 100 * real rep / real (rep + scr)"
    and "E \<equiv> 201 / 2 ^ 53 :: real"
  shows "a - E \<le> v" and "v \<le> a + E" and "0 \<le> v" and "a \<le> 100"
proof -
  have "\<bar>v - a\<bar> \<le> E"
    unfolding v_def a_def E_def using assms(1) by (intro product_error) simp_all
  then show "a - E \<le> v" and "v \<le> a + E"
    by (simp_all only: abs_le_iff) linarith+
  show "0 \<le> v"
    unfolding v_def by (rule valD_nonneg)
  have "real rep \<le> real (rep + scr)"
    by simp
  moreover have "0 < real (rep + scr)"
    using assms(1) by simp
  ultimately have "real rep / real (rep + scr) \<le> 1"
    by (simp only: pos_divide_le_eq mult_1)
  then have "100 * (real rep / real (rep + scr)) \<le> 100 * 1"
    by (intro mult_left_mono) simp_all
  then show "a \<le> 100"
    unfolding a_def by simp
qed

lemma yieldOf_range: "0 \<le> yieldOf rep scr \<and> yieldOf rep scr \<le> 100"
proof (cases "rep = 0")
  case True
  then show ?thesis by (simp add: yieldOf_no_repaired)
next
  case False
  define v where "v = valD (times_js (divide_js rep (rep + scr)) 100)"
  define a where "a = 100 * real rep / real (rep + scr)"
  define E where "E = (201 / 2 ^ 53 :: real)"
  have y: "yieldOf rep scr = \<lfloor>v + 1 / 2\<rfloor>"
    unfolding v_def using False by (rule yieldOf_floor)
  have w: "v \<le> a + E" "0 \<le> v" "a \<le> 100"
    unfolding v_def a_def E_def using product_window [OF False, of scr] by simp_all
  have E: "E < 1 / 2"
    unfolding E_def by simp
  have "of_int 0 \<le> v + 1 / 2"
    using w(2) by simp
  then have lo: "0 \<le> \<lfloor>v + 1 / 2\<rfloor>"
    by (simp only: le_floor_iff)
  have "v + 1 / 2 < of_int 100 + 1"
    using w(1) w(3) E by simp
  then have hi: "\<lfloor>v + 1 / 2\<rfloor> \<le> 100"
    by (simp only: floor_le_iff)
  from lo hi y show ?thesis by simp
qed

lemma not_half_remainder:
  assumes "0 < n" and "frac (100 * real rep / real n) \<noteq> 1 / 2"
  shows "(200 * rep + n) mod (2 * n) \<noteq> 0"
proof
  assume "(200 * rep + n) mod (2 * n) = 0"
  then obtain k where k: "200 * rep + n = 2 * n * k"
    by (auto simp: mod_eq_0_iff_dvd dvd_def)
  have kpos: "k \<noteq> 0"
    using k assms(1) by (cases k) simp_all
  define rn where "rn = real n"
  define rr where "rr = real rep"
  have rn: "0 < rn" unfolding rn_def using assms(1) by simp
  have "real (200 * rep + n) = real (2 * n * k)"
    using k by (simp only:)
  then have "200 * rr + rn = 2 * rn * real k"
    unfolding rn_def rr_def by simp
  then have "100 * rr = rn * (real k - 1 / 2)"
    by (simp add: algebra_simps)
  then have "100 * rr / rn = real k - 1 / 2"
    using rn by (simp add: field_simps)
  also have "\<dots> = of_int (int k - 1) + 1 / 2"
    using kpos by simp
  finally have "frac (100 * rr / rn) = frac (of_int (int k - 1) + (1 / 2 :: real))"
    by (simp only:)
  also have "\<dots> = 1 / 2"
  proof -
    have "\<lfloor>of_int (int k - 1) + (1 / 2 :: real)\<rfloor> = int k - 1"
      by (simp only: floor_eq_iff) simp
    then show ?thesis
      by (simp only: frac_def)
  qed
  finally show False
    using assms(2) unfolding rn_def rr_def by simp
qed

lemma spec_yield_div:
  assumes "rep + scr \<noteq> 0"
  shows "spec_yield rep scr = int ((200 * rep + (rep + scr)) div (2 * (rep + scr)))"
proof -
  define rn where "rn = real (rep + scr)"
  define rr where "rr = real rep"
  have "0 < rep + scr" using assms by simp
  then have rn: "0 < rn" unfolding rn_def by (simp only: of_nat_0_less_iff)
  have "100 * rr / rn + 1 / 2 = (200 * rr + rn) / (2 * rn)"
    using rn by (simp add: field_simps)
  also have "\<dots> = real (200 * rep + (rep + scr)) / real (2 * (rep + scr))"
    unfolding rn_def rr_def by simp
  finally have "\<lfloor>100 * rr / rn + 1 / 2\<rfloor>
      = \<lfloor>real (200 * rep + (rep + scr)) / real (2 * (rep + scr))\<rfloor>"
    by (simp only:)
  also have "\<dots> = int ((200 * rep + (rep + scr)) div (2 * (rep + scr)))"
    by (rule floor_divide_of_nat_eq)
  finally show ?thesis
    using assms unfolding spec_yield_def rn_def rr_def by (simp only: if_False)
qed

lemma floor_between:
  fixes v y E d :: real
  assumes "y - E \<le> v" and "v \<le> y + E" and "E < d"
    and "real k + d \<le> y" and "y \<le> real k + 1 - d"
  shows "\<lfloor>v\<rfloor> = int k"
proof -
  have "of_int (int k) \<le> v" using assms by simp
  moreover have "v < of_int (int k) + 1" using assms by simp
  ultimately show ?thesis by (simp only: floor_eq_iff)
qed

lemma yieldOf_exact:
  assumes "rep + scr < 2 ^ 32"
    and "(200 * rep + (rep + scr)) mod (2 * (rep + scr)) \<noteq> 0"
  shows "yieldOf rep scr = spec_yield rep scr"
proof (cases "rep = 0")
  case True
  then show ?thesis by (simp add: yieldOf_no_repaired spec_yield_def)
next
  case False
  define N where "N = 200 * rep + (rep + scr)"
  define D where "D = 2 * (rep + scr)"
  define v where "v = valD (times_js (divide_js rep (rep + scr)) 100)"
  define a where "a = 100 * real rep / real (rep + scr)"
  define E where "E = (201 / 2 ^ 53 :: real)"
  have ne: "rep + scr \<noteq> 0" using False by simp
  have Dpos: "0 < D" unfolding D_def using False by simp
  have y: "yieldOf rep scr = \<lfloor>v + 1 / 2\<rfloor>"
    unfolding v_def using False by (rule yieldOf_floor)
  have w: "a - E \<le> v" "v \<le> a + E"
    unfolding v_def a_def E_def using product_window [OF False, of scr] by simp_all
  have aN: "a + 1 / 2 = real N / real D"
  proof -
    have "0 < rep + scr" using ne by simp
    then have "0 < real (rep + scr)" by (simp only: of_nat_0_less_iff)
    then have "100 * real rep / real (rep + scr) + 1 / 2
        = (200 * real rep + real (rep + scr)) / (2 * real (rep + scr))"
      by (simp add: field_simps)
    also have "\<dots> = real N / real D"
      unfolding N_def D_def by simp
    finally show ?thesis unfolding a_def .
  qed
  have "real N = real D * real (N div D) + real (N mod D)"
    by (metis of_nat_add of_nat_mult mult_div_mod_eq)
  then have "real N / real D = real (N div D) + real (N mod D) / real D"
    using Dpos by (simp add: field_simps)
  with aN have yk: "a + 1 / 2 = real (N div D) + real (N mod D) / real D"
    by simp
  have r1: "1 \<le> N mod D"
    using assms(2) unfolding N_def D_def by simp
  have "N mod D < D" using Dpos by simp
  then have r2: "N mod D + 1 \<le> D" by simp
  have rD: "0 < real D" using Dpos by simp
  have "real 1 \<le> real (N mod D)"
    using r1 by (simp only: of_nat_le_iff)
  then have lo: "1 / real D \<le> real (N mod D) / real D"
    using rD by (simp add: divide_right_mono)
  have "real (N mod D + 1) \<le> real D"
    using r2 by (simp only: of_nat_le_iff)
  then have "real (N mod D) + 1 \<le> real D"
    by simp
  then have "(real (N mod D) + 1) / real D \<le> 1"
    using rD by (simp only: pos_divide_le_eq mult_1)
  then have hi: "real (N mod D) / real D \<le> 1 - 1 / real D"
    by (simp add: add_divide_distrib)
  have "D < 2 ^ 33"
    unfolding D_def using assms(1) by simp
  then have "real D < 2 ^ 33"
    by (rule real_less_two_power)
  then have "1 / 2 ^ 33 < 1 / real D"
    using rD by (simp add: field_simps)
  moreover have "E < 1 / 2 ^ 33"
    unfolding E_def by simp
  ultimately have small: "E < 1 / real D"
    by linarith
  have "\<lfloor>v + 1 / 2\<rfloor> = int (N div D)"
  proof (rule floor_between [where y = "a + 1 / 2" and E = E and d = "1 / real D"])
    show "a + 1 / 2 - E \<le> v + 1 / 2" using w(1) by simp
    show "v + 1 / 2 \<le> a + 1 / 2 + E" using w(2) by simp
    show "E < 1 / real D" by (rule small)
    show "real (N div D) + 1 / real D \<le> a + 1 / 2" using lo unfolding yk by simp
    show "a + 1 / 2 \<le> real (N div D) + 1 - 1 / real D" using hi unfolding yk by simp
  qed
  moreover have "spec_yield rep scr = int (N div D)"
    unfolding N_def D_def using ne by (rule spec_yield_div)
  ultimately show ?thesis
    using y by simp
qed

lemma filter_disjoint_length:
  assumes "\<forall>x\<in>set xs. \<not> (P x \<and> Q x)"
  shows "length (filter P xs) + length (filter Q xs) \<le> length xs"
  using assms by (induction xs) auto

lemma repaired_scrapped_le: "repaired now getTime repairs + scrapped now getTime repairs \<le> length repairs"
proof -
  have "repaired now getTime repairs + scrapped now getTime repairs
        \<le> length (last30 now getTime repairs)"
    unfolding repaired_def scrapped_def by (intro filter_disjoint_length) simp
  also have "\<dots> \<le> length repairs"
    by (simp add: last30_def)
  finally show ?thesis .
qed

lemma yieldOf_3_1: "yieldOf 3 1 = 75"
  by (simp add: yieldOf_def Math_round_def times_js_def divide_js_def roundToDouble_def
      exponentOf_def roundTiesToEven_def Let_def bitLength.simps)

lemma yieldOf_23_17: "yieldOf 23 17 = 57"
  by (simp add: yieldOf_def Math_round_def times_js_def divide_js_def roundToDouble_def
      exponentOf_def roundTiesToEven_def Let_def bitLength.simps)

lemma counts_yieldRepairs:
  "repaired 1704456000000 sampleGetTime (yieldRepairs rep scr) = rep"
  "scrapped 1704456000000 sampleGetTime (yieldRepairs rep scr) = scr"
  by (simp_all add: repaired_def scrapped_def last30_def yieldRepairs_def sampleRepair_def
      sampleGetTime_def)

lemma floor_half_nearest:
  fixes a :: real
  shows "\<bar>of_int \<lfloor>a + 1 / 2\<rfloor> - a\<bar> \<le> 1 / 2"
  by linarith

text \<open>
  At a percentage halfway between two integers the yield is one of the two: in every
  case it is an integer nearest to the exact percentage.
\<close>

lemma yieldOf_nearest:
  assumes "rep + scr \<noteq> 0" and "rep + scr < 2 ^ 32"
  shows "\<bar>of_int (yieldOf rep scr) - 100 * real rep / real (rep + scr)\<bar> \<le> 1 / 2"
proof (cases "(200 * rep + (rep + scr)) mod (2 * (rep + scr)) = 0")
  case False
  with assms(2) have "yieldOf rep scr = spec_yield rep scr"
    by (rule yieldOf_exact)
  then show ?thesis
    using assms(1) floor_half_nearest [of "100 * real rep / real (rep + scr)"]
    by (simp only: spec_yield_def if_False)
next
  case True
  then obtain k where k: "200 * rep + (rep + scr) = 2 * (rep + scr) * k"
    by (auto simp: mod_eq_0_iff_dvd dvd_def)
  have kpos: "k \<noteq> 0"
    using k assms(1) by (cases k) simp_all
  then have rep: "rep \<noteq> 0"
    using k assms(1) by (cases "rep = 0") (auto simp: algebra_simps)
  define v where "v = valD (times_js (divide_js rep (rep + scr)) 100)"
  define a where "a = 100 * real rep / real (rep + scr)"
  define E where "E = (201 / 2 ^ 53 :: real)"
  have y: "yieldOf rep scr = \<lfloor>v + 1 / 2\<rfloor>"
    unfolding v_def using rep by (rule yieldOf_floor)
  have w: "a - E \<le> v" "v \<le> a + E"
    unfolding v_def a_def E_def using product_window [OF rep, of scr] by simp_all
  have E: "E < 1 / 2" unfolding E_def by simp
  define rn where "rn = real (rep + scr)"
  define rr where "rr = real rep"
  have "0 < rep + scr" using assms(1) by simp
  then have rn: "0 < rn" unfolding rn_def by (simp only: of_nat_0_less_iff)
  have "real (200 * rep + (rep + scr)) = real (2 * (rep + scr) * k)"
    using k by (simp only:)
  then have "200 * rr + rn = 2 * rn * real k"
    unfolding rn_def rr_def by (simp only: of_nat_add of_nat_mult of_nat_numeral)
  then have "100 * rr = rn * (real k - 1 / 2)"
    by (simp add: algebra_simps)
  then have "100 * rr / rn = real k - 1 / 2"
    using rn by (simp add: field_simps)
  then have ak: "a = real k - 1 / 2"
    unfolding a_def rn_def rr_def .
  have "of_int (int k - 1) \<le> v + 1 / 2"
    using w(1) E unfolding ak by simp
  then have lo: "int k - 1 \<le> \<lfloor>v + 1 / 2\<rfloor>"
    by (simp only: le_floor_iff)
  have "v + 1 / 2 < of_int (int k) + 1"
    using w(2) E unfolding ak by simp
  then have hi: "\<lfloor>v + 1 / 2\<rfloor> \<le> int k"
    by (simp only: floor_le_iff)
  from lo hi have "\<lfloor>v + 1 / 2\<rfloor> = int k - 1 \<or> \<lfloor>v + 1 / 2\<rfloor> = int k"
    by linarith
  then have "\<bar>of_int \<lfloor>v + 1 / 2\<rfloor> - a\<bar> \<le> 1 / 2"
    unfolding ak using kpos by (auto simp: abs_if)
  then show ?thesis
    unfolding y a_def .
qed

text \<open>
  C4 (as amended). For every list of repairs, with \<open>repaired\<close> and \<open>scrapped\<close> the
  numbers of repairs of disposition \<open>Repaired\<close> and \<open>Scrap\<close> among those whose
  \<open>startAt\<close> is a valid date not more than 30 times 24 hours before now (the test has
  no upper bound: a date after now passes it): the yield lies between 0 and 100 and is
  0 when \<open>repaired + scrapped = 0\<close>; and for an array of a length JavaScript allows it
  equals \<open>100 * repaired / (repaired + scrapped)\<close> rounded to the nearest integer, a
  half going up, whenever that percentage is not halfway between two integers. Three
  repaired and one scrapped give 75.
\<close>

theorem yieldPct_range_and_rounding:
  "0 \<le> yieldPct now getTime repairs
   \<and> yieldPct now getTime repairs \<le> 100
   \<and> (repaired now getTime repairs + scrapped now getTime repairs = 0 \<longrightarrow>
        yieldPct now getTime repairs = 0)
   \<and> (length repairs < 2 ^ 32
        \<and> frac (100 * real (repaired now getTime repairs)
                 / real (repaired now getTime repairs + scrapped now getTime repairs)) \<noteq> 1 / 2 \<longrightarrow>
        yieldPct now getTime repairs
          = spec_yield (repaired now getTime repairs) (scrapped now getTime repairs))
   \<and> repaired now getTime repairs
        = length (filter (\<lambda>r. inWindow30 now getTime r \<and> disposition r = Repaired) repairs)
   \<and> scrapped now getTime repairs
        = length (filter (\<lambda>r. inWindow30 now getTime r \<and> disposition r = Scrap) repairs)
   \<and> yieldOf 3 1 = 75"
proof -
  let ?rep = "repaired now getTime repairs" and ?scr = "scrapped now getTime repairs"
  have y: "yieldPct now getTime repairs = yieldOf ?rep ?scr"
    by (simp add: yieldPct_def)
  have 1: "0 \<le> yieldOf ?rep ?scr \<and> yieldOf ?rep ?scr \<le> 100"
    by (rule yieldOf_range)
  have 2: "yieldOf ?rep ?scr = 0" if "?rep + ?scr = 0"
    using that by (simp add: yieldOf_def)
  have 3: "yieldOf ?rep ?scr = spec_yield ?rep ?scr"
    if l: "length repairs < 2 ^ 32"
      and f: "frac (100 * real ?rep / real (?rep + ?scr)) \<noteq> 1 / 2"
  proof (cases "?rep + ?scr = 0")
    case True
    then show ?thesis by (simp add: yieldOf_def spec_yield_def)
  next
    case False
    then have "0 < ?rep + ?scr" by simp
    then have "(200 * ?rep + (?rep + ?scr)) mod (2 * (?rep + ?scr)) \<noteq> 0"
      using f by (rule not_half_remainder)
    moreover have "?rep + ?scr < 2 ^ 32"
      using repaired_scrapped_le [of now getTime repairs] l by linarith
    ultimately show ?thesis
      by (intro yieldOf_exact)
  qed
  have 4: "?rep = length (filter (\<lambda>r. inWindow30 now getTime r \<and> disposition r = Repaired) repairs)"
    by (simp add: repaired_def last30_inWindow30 conj_commute)
  have 5: "?scr = length (filter (\<lambda>r. inWindow30 now getTime r \<and> disposition r = Scrap) repairs)"
    by (simp add: scrapped_def last30_inWindow30 conj_commute)
  from 1 2 3 4 5 yieldOf_3_1 show ?thesis
    unfolding y by blast
qed

theorem yieldPct_range_and_rounding_witness:
  "yieldPct 1704456000000 sampleGetTime
     (sampleRepair ''TV9'' ''2023-11-01T00:00:00.000Z'' ''HDMI_FAIL'' Scrap
      # sampleRepair ''TV8'' ''2024-01-03T12:00:00.000Z'' ''WIFI_WEAK'' NTF
      # yieldRepairs 3 1) = 75
   \<and> repaired 1704456000000 sampleGetTime
     (sampleRepair ''TV9'' ''2023-11-01T00:00:00.000Z'' ''HDMI_FAIL'' Scrap
      # sampleRepair ''TV8'' ''2024-01-03T12:00:00.000Z'' ''WIFI_WEAK'' NTF
      # yieldRepairs 3 1) = 3
   \<and> scrapped 1704456000000 sampleGetTime
     (sampleRepair ''TV9'' ''2023-11-01T00:00:00.000Z'' ''HDMI_FAIL'' Scrap
      # sampleRepair ''TV8'' ''2024-01-03T12:00:00.000Z'' ''WIFI_WEAK'' NTF
      # yieldRepairs 3 1) = 1
   \<and> spec_yield 3 1 = 75"
proof -
  let ?rs = "sampleRepair ''TV9'' ''2023-11-01T00:00:00.000Z'' ''HDMI_FAIL'' Scrap
      # sampleRepair ''TV8'' ''2024-01-03T12:00:00.000Z'' ''WIFI_WEAK'' NTF
      # yieldRepairs 3 1"
  have r: "repaired 1704456000000 sampleGetTime ?rs = 3"
    and s: "scrapped 1704456000000 sampleGetTime ?rs = 1"
    by (simp_all add: repaired_def scrapped_def last30_def yieldRepairs_def sampleRepair_def
        sampleGetTime_def numeral_3_eq_3)
  have l: "length ?rs < 2 ^ 32"
    by (simp add: yieldRepairs_def)
  have f: "frac (100 * real (3::nat) / real ((3::nat) + 1)) \<noteq> 1 / 2"
    by (simp add: frac_def)
  have sy: "spec_yield 3 1 = 75"
    by (simp add: spec_yield_def)
  from yieldPct_range_and_rounding [of 1704456000000 sampleGetTime ?rs] l f
  have "yieldPct 1704456000000 sampleGetTime ?rs = spec_yield 3 1"
    unfolding r s by blast
  with r s sy show ?thesis by simp
qed

text \<open>
  C4 as stated fails in two ways. A repair dated after now is not in the last 30 days,
  and it is counted: alone in the list it gives a yield of 100, not 0. And at a
  percentage halfway between two integers the doubles can fall short: 23 repaired and
  17 scrapped are 57.5 percent, the quotient \<open>23 / 40\<close> is rounded down to a double, its
  product with 100 is the double just below 57.5, and \<open>Math.round\<close> gives 57, not 58.
\<close>

theorem yield_window_and_tie_counterexample:
  "sampleGetTime (startAt (sampleRepair ''TV1'' ''2024-02-01T00:00:00.000Z'' ''PSU_NO_POWER'' Repaired))
     = Some 1706745600000
   \<and> (1704456000000 :: int) < 1706745600000
   \<and> yieldPct 1704456000000 sampleGetTime
        [sampleRepair ''TV1'' ''2024-02-01T00:00:00.000Z'' ''PSU_NO_POWER'' Repaired] = 100
   \<and> repaired 1704456000000 sampleGetTime (yieldRepairs 23 17) = 23
   \<and> scrapped 1704456000000 sampleGetTime (yieldRepairs 23 17) = 17
   \<and> yieldPct 1704456000000 sampleGetTime (yieldRepairs 23 17) = 57
   \<and> spec_yield 23 17 = 58
   \<and> \<lfloor>100 * (23 :: real) / (23 + 17) + 1 / 2\<rfloor> = 58"
proof -
  have "yieldOf 1 0 = 100"
    by (simp add: yieldOf_def Math_round_def times_js_def divide_js_def roundToDouble_def
        exponentOf_def roundTiesToEven_def Let_def bitLength.simps)
  then have a: "yieldPct 1704456000000 sampleGetTime
        [sampleRepair ''TV1'' ''2024-02-01T00:00:00.000Z'' ''PSU_NO_POWER'' Repaired] = 100"
    by (simp add: yieldPct_def repaired_def scrapped_def last30_def sampleRepair_def
        sampleGetTime_def)
  have b: "sampleGetTime (startAt (sampleRepair ''TV1'' ''2024-02-01T00:00:00.000Z'' ''PSU_NO_POWER'' Repaired))
     = Some 1706745600000"
    by (simp add: sampleRepair_def sampleGetTime_def)
  have c: "yieldPct 1704456000000 sampleGetTime (yieldRepairs 23 17) = 57"
    by (simp add: yieldPct_def counts_yieldRepairs yieldOf_23_17)
  have d: "spec_yield 23 17 = 58" and e: "\<lfloor>100 * (23 :: real) / (23 + 17) + 1 / 2\<rfloor> = 58"
    by (simp_all add: spec_yield_def)
  have f: "(1704456000000 :: int) < 1706745600000"
    by simp
  from a b c d e f counts_yieldRepairs [of 23 17] show ?thesis
    by (intro conjI)
qed

subsection \<open>C5: open holds\<close>


text \<open>
  C5. For every list of intakes the open-holds count is the number of intakes in which
  at least one of \<open>labels_match\<close>, \<open>safety_ok\<close>, \<open>ports_intact\<close>, \<open>power_symptom\<close>,
  \<open>esd_ok\<close> is \<open>Fail\<close>. An intake with \<open>safety_ok\<close> \<open>Fail\<close> and every other field \<open>Pass\<close>
  adds exactly one to the count, and an intake whose only \<open>Fail\<close> is \<open>cosmetic_screen\<close>
  adds nothing.
\<close>

theorem openHolds_counts_designated_fails:
  "openHolds intakes = spec_openHolds intakes
   \<and> openHolds (intakes @ [i\<lparr>checklist := allPass\<lparr>safety_ok := Fail\<rparr>\<rparr>]) = openHolds intakes + 1
   \<and> openHolds [i\<lparr>checklist := allPass\<lparr>safety_ok := Fail\<rparr>\<rparr>] = 1
   \<and> openHolds (intakes @ [i\<lparr>checklist := allPass\<lparr>cosmetic_screen := Fail\<rparr>\<rparr>]) = openHolds intakes
   \<and> openHolds [i\<lparr>checklist := allPass\<lparr>cosmetic_screen := Fail\<rparr>\<rparr>] = 0"
proof -
  have "openHolds intakes = spec_openHolds intakes"
    by (simp add: openHolds_def spec_openHolds_def designatedFields_def)
  moreover have "openHolds (xs @ [i\<lparr>checklist := allPass\<lparr>safety_ok := Fail\<rparr>\<rparr>]) = openHolds xs + 1" for xs
    by (simp add: openHolds_def allPass_def)
  moreover have "openHolds (xs @ [i\<lparr>checklist := allPass\<lparr>cosmetic_screen := Fail\<rparr>\<rparr>]) = openHolds xs" for xs
    by (simp add: openHolds_def allPass_def)
  moreover have "openHolds [] = 0"
    by (simp add: openHolds_def)
  ultimately show ?thesis
    by (metis add_0 append_Nil)
qed

subsection \<open>C6: the seven daily counts and the trailing week\<close>

lemma count_split:
  assumes "lo \<le> mid" and "mid \<le> hi"
  shows "length (filter (\<lambda>r. ge_js (key r) (Some lo) \<and> lt_js (key r) (Some mid)) xs)
       + length (filter (\<lambda>r. ge_js (key r) (Some mid) \<and> lt_js (key r) (Some hi)) xs)
       = length (filter (\<lambda>r. ge_js (key r) (Some lo) \<and> lt_js (key r) (Some (hi :: int))) xs)"
proof (induction xs)
  case Nil
  show ?case by simp
next
  case (Cons x xs)
  show ?case
  proof (cases "key x")
    case None
    with Cons show ?thesis by simp
  next
    case (Some t)
    with Cons assms show ?thesis by auto
  qed
qed

lemma setHours0_midnight: "setHours0 tz now = midnight tz now 0"
  by (simp add: setHours0_def midnight_def localMidnight_def)

lemma localMidnight_plus: "localMidnight tz now j + k * msPerDay = localMidnight tz now (j + k)"
  by (simp add: localMidnight_def algebra_simps)

lemma setDate_midnight:
  assumes "LocalTime tz (midnight tz now j) = localMidnight tz now j"
  shows "setDate_getDate_plus tz (midnight tz now j) k = midnight tz now (j + k)"
  using assms by (simp add: setDate_getDate_plus_def midnight_def localMidnight_plus)

lemma dayEntry_regular:
  assumes "LocalTime tz (midnight tz now 0) = localMidnight tz now 0"
    and "LocalTime tz (midnight tz now (d - 6)) = localMidnight tz now (d - 6)"
  shows "dayEntry tz now getTime repairs d =
     \<lparr>date = midnight tz now (d - 6),
        count = length (filter (\<lambda>r. ge_js (getTime (startAt r)) (Some (midnight tz now (d - 6)))
                                   \<and> lt_js (getTime (startAt r)) (Some (midnight tz now (d - 5)))) repairs)\<rparr>"
proof -
  have 1: "setDate_getDate_plus tz (setHours0 tz now) (d - 6) = midnight tz now (d - 6)"
    using setDate_midnight [OF assms(1), of "d - 6"] by (simp add: setHours0_midnight)
  have 2: "setDate_getDate_plus tz (midnight tz now (d - 6)) 1 = midnight tz now (d - 5)"
    using setDate_midnight [OF assms(2), of 1] by (simp add: algebra_simps)
  show ?thesis
    by (simp add: dayEntry_def Let_def 1 2)
qed

lemma fixedOffset_regularWeek: "regularWeek (fixedOffset off) now"
  by (simp add: regularWeek_def fixedOffset_def midnight_def localMidnight_def LocalTime_def
      UTC_def msPerDay_def)

text \<open>
  In a regular week, for every list of repairs: the seven counts of the 7-day
  throughput, one per local calendar day from the midnight that starts it to the next
  midnight, oldest day first and today last, add up to the number of repairs whose
  \<open>startAt\<close> lies in the trailing 7-day window ending today (from the local midnight that
  starts the day six days ago to the local midnight that ends today).
\<close>

theorem throughput_buckets_sum_to_window:
  assumes "regularWeek tz now"
  shows "sum_list (map count (days tz now getTime repairs))
           = length (filter (inTrailingWeek tz now getTime) repairs)
       \<and> map date (days tz now getTime repairs)
           = map (midnight tz now) [- 6, - 5, - 4, - 3, - 2, - 1, 0]
       \<and> map count (days tz now getTime repairs)
           = map (\<lambda>j. length (filter (\<lambda>r. ge_js (getTime (startAt r)) (Some (midnight tz now j))
                                        \<and> lt_js (getTime (startAt r)) (Some (midnight tz now (j + 1))))
                           repairs))
               [- 6, - 5, - 4, - 3, - 2, - 1, 0]"
proof -
  let ?a = "midnight tz now"
  let ?c = "\<lambda>lo hi. length (filter (\<lambda>r. ge_js (getTime (startAt r)) (Some lo)
                                       \<and> lt_js (getTime (startAt r)) (Some hi)) repairs)"
  have ex: "LocalTime tz (?a j) = localMidnight tz now j"
    if "j \<in> set [- 6, - 5, - 4, - 3, - 2, - 1, 0, 1]" for j
    using assms that unfolding regularWeek_def by blast
  have mono: "?a j \<le> ?a (j + 1)" if "j \<in> set [- 6, - 5, - 4, - 3, - 2, - 1, 0]" for j
    using assms that unfolding regularWeek_def by blast
  have e: "dayEntry tz now getTime repairs d = \<lparr>date = ?a (d - 6), count = ?c (?a (d - 6)) (?a (d - 5))\<rparr>"
    if "d \<in> set [0, 1, 2, 3, 4, 5, 6]" for d
  proof -
    have "d - 6 \<in> set [- 6, - 5, - 4, - 3, - 2, - 1, 0, 1]"
      using that by auto
    moreover have "0 \<in> set [- 6, - 5, - 4, - 3, - 2, - 1, 0, 1 :: int]"
      by simp
    ultimately show ?thesis
      by (intro dayEntry_regular ex)
  qed
  have d: "days tz now getTime repairs =
      [\<lparr>date = ?a (- 6), count = ?c (?a (- 6)) (?a (- 5))\<rparr>,
       \<lparr>date = ?a (- 5), count = ?c (?a (- 5)) (?a (- 4))\<rparr>,
       \<lparr>date = ?a (- 4), count = ?c (?a (- 4)) (?a (- 3))\<rparr>,
       \<lparr>date = ?a (- 3), count = ?c (?a (- 3)) (?a (- 2))\<rparr>,
       \<lparr>date = ?a (- 2), count = ?c (?a (- 2)) (?a (- 1))\<rparr>,
       \<lparr>date = ?a (- 1), count = ?c (?a (- 1)) (?a 0)\<rparr>,
       \<lparr>date = ?a 0, count = ?c (?a 0) (?a 1)\<rparr>]"
    using e [of 0] e [of 1] e [of 2] e [of 3] e [of 4] e [of 5] e [of 6]
    by (simp add: days_def)
  have m: "?a (- 6) \<le> ?a (- 5)" "?a (- 5) \<le> ?a (- 4)" "?a (- 4) \<le> ?a (- 3)"
    "?a (- 3) \<le> ?a (- 2)" "?a (- 2) \<le> ?a (- 1)" "?a (- 1) \<le> ?a 0" "?a 0 \<le> ?a 1"
    using mono [of "- 6"] mono [of "- 5"] mono [of "- 4"] mono [of "- 3"] mono [of "- 2"]
      mono [of "- 1"] mono [of 0]
    by simp_all
  have s1: "?c (?a (- 6)) (?a (- 5)) + ?c (?a (- 5)) (?a (- 4)) = ?c (?a (- 6)) (?a (- 4))"
    using m by (intro count_split) simp_all
  have s2: "?c (?a (- 6)) (?a (- 4)) + ?c (?a (- 4)) (?a (- 3)) = ?c (?a (- 6)) (?a (- 3))"
    using m by (intro count_split) simp_all
  have s3: "?c (?a (- 6)) (?a (- 3)) + ?c (?a (- 3)) (?a (- 2)) = ?c (?a (- 6)) (?a (- 2))"
    using m by (intro count_split) simp_all
  have s4: "?c (?a (- 6)) (?a (- 2)) + ?c (?a (- 2)) (?a (- 1)) = ?c (?a (- 6)) (?a (- 1))"
    using m by (intro count_split) simp_all
  have s5: "?c (?a (- 6)) (?a (- 1)) + ?c (?a (- 1)) (?a 0) = ?c (?a (- 6)) (?a 0)"
    using m by (intro count_split) simp_all
  have s6: "?c (?a (- 6)) (?a 0) + ?c (?a 0) (?a 1) = ?c (?a (- 6)) (?a 1)"
    using m by (intro count_split) simp_all
  have "sum_list (map count (days tz now getTime repairs)) = ?c (?a (- 6)) (?a 1)"
    using s1 s2 s3 s4 s5 s6 by (simp add: d)
  moreover have "?c (?a (- 6)) (?a 1) = length (filter (inTrailingWeek tz now getTime) repairs)"
    by (simp add: inTrailingWeek_def [abs_def])
  ultimately show ?thesis
    by (simp add: d)
qed

theorem throughput_buckets_sum_to_window_witness:
  "regularWeek (fixedOffset (- 18000000)) 1704456000000
   \<and> map count (days (fixedOffset (- 18000000)) 1704456000000 sampleGetTime sampleRepairs)
       = [0, 0, 0, 0, 1, 0, 1]
   \<and> length (filter (inTrailingWeek (fixedOffset (- 18000000)) 1704456000000 sampleGetTime)
        sampleRepairs) = 2"
proof -
  have r: "regularWeek (fixedOffset (- 18000000)) 1704456000000"
    by (rule fixedOffset_regularWeek)
  have c: "map count (days (fixedOffset (- 18000000)) 1704456000000 sampleGetTime sampleRepairs)
       = [0, 0, 0, 0, 1, 0, 1]"
    by (simp add: days_def dayEntry_def setDate_getDate_plus_def setHours0_def LocalTime_def
        UTC_def fixedOffset_def msPerDay_def sampleRepairs_def sampleRepair_def sampleGetTime_def)
  from throughput_buckets_sum_to_window [OF r, of sampleGetTime sampleRepairs] c
  have "length (filter (inTrailingWeek (fixedOffset (- 18000000)) 1704456000000 sampleGetTime)
        sampleRepairs) = 2"
    by simp
  with r c show ?thesis by simp
qed

text \<open>
  C6. The sum of the seven daily counts should be the number of repairs in the trailing
  7-day window ending today. It is not in a week that holds a day whose midnight the
  clocks skip. In Santiago de Chile the clocks went from 24:00 on 7 September 2024 to
  01:00 on 8 September; on 10 September at noon, the bucket of 8 September starts at
  01:00, its \<open>dayEnd\<close> is that time of day one day later, 01:00 on 9 September, and the
  bucket of 9 September starts at 00:00: a repair started at 00:30 on 9 September is
  counted in both, and the seven counts add up to 2 for one repair in the window.
\<close>

theorem throughput_skipped_midnight_double_count:
  "map count (days santiagoSpring2024 1725980400000 santiagoGetTime
      [sampleRepair ''TV1'' ''2024-09-09T03:30:00.000Z'' ''PSU_NO_POWER'' Repaired])
     = [0, 0, 0, 0, 1, 1, 0]
   \<and> map date (days santiagoSpring2024 1725980400000 santiagoGetTime
      [sampleRepair ''TV1'' ''2024-09-09T03:30:00.000Z'' ''PSU_NO_POWER'' Repaired])
     = [1725422400000, 1725508800000, 1725595200000, 1725681600000, 1725768000000,
        1725850800000, 1725937200000]
   \<and> setDate_getDate_plus santiagoSpring2024 1725768000000 1 = 1725854400000
   \<and> length (filter (inTrailingWeek santiagoSpring2024 1725980400000 santiagoGetTime)
      [sampleRepair ''TV1'' ''2024-09-09T03:30:00.000Z'' ''PSU_NO_POWER'' Repaired]) = 1"
  by (simp add: days_def dayEntry_def setDate_getDate_plus_def setHours0_def LocalTime_def
      UTC_def santiagoSpring2024_def msPerDay_def sampleRepair_def santiagoGetTime_def
      inTrailingWeek_def midnight_def localMidnight_def)

subsection \<open>C7: the Pareto of failure codes\<close>

lemma firstSeen_snoc:
  "firstSeen (xs @ [x]) = (if x \<in> set xs then firstSeen xs else firstSeen xs @ [x])"
proof -
  have "firstSeen (xs @ [x]) = Set_add (firstSeen xs) x"
    using Array_from_Set_firstSeen [of "xs @ [x]"] Array_from_Set_firstSeen [of xs]
    by (simp add: Array_from_Set_def)
  then show ?thesis by (simp add: Set_add_def)
qed

lemma spec_counts_snoc:
  "spec_counts (rs @ [r]) =
     (if failureCode r \<in> failureCode ` set rs
      then map (\<lambda>(k, n). if k = failureCode r then (k, Suc n) else (k, n)) (spec_counts rs)
      else spec_counts rs @ [(failureCode r, 1)])"
proof (cases "failureCode r \<in> failureCode ` set rs")
  case True
  then show ?thesis
    by (simp add: spec_counts_def firstSeen_snoc)
next
  case False
  have ne: "failureCode x \<noteq> failureCode r" if "x \<in> set rs" for x
    using False that by (metis image_eqI)
  have "filter (\<lambda>x. failureCode x = failureCode r) rs = []"
    by (simp add: filter_empty_conv ne)
  moreover have "length (filter (\<lambda>x. failureCode x = k) (rs @ [r])) = length (filter (\<lambda>x. failureCode x = k) rs)"
    if "k \<in> set (firstSeen (map failureCode rs))" for k
  proof -
    from that obtain x where "x \<in> set rs" and "k = failureCode x"
      by auto
    with ne have "failureCode r \<noteq> k"
      by metis
    then show ?thesis by simp
  qed
  ultimately show ?thesis
    using False by (simp add: spec_counts_def firstSeen_snoc)
qed

lemma fst_spec_counts: "fst ` set (spec_counts rs) = failureCode ` set rs"
  by (auto simp: spec_counts_def image_iff)

lemma map_of_countCells:
  "map_of (map countCell (spec_counts rs)) k =
     (if k \<in> failureCode ` set rs
      then Some (Count (length (filter (\<lambda>r. failureCode r = k) rs))) else None)"
proof -
  have "map_of (map (\<lambda>k. (k, f k)) ks) k = (if k \<in> set ks then Some (f k) else None)" for f :: "string \<Rightarrow> tally" and ks
    by (induction ks) auto
  from this [of "\<lambda>k. Count (length (filter (\<lambda>r. failureCode r = k) rs))" "firstSeen (map failureCode rs)"]
  show ?thesis
    by (simp add: spec_counts_def countCell_def comp_def)
qed

lemma failCount_snoc:
  "failCount (rs @ [r]) = assign (failureCode r) (plusOne (failureCode r) (failCount rs)) (failCount rs)"
  by (simp add: failCount_def)

lemma failCount_spec_counts:
  assumes "\<forall>r\<in>set rs. inherited (failureCode r) = None"
  shows "failCount rs = map countCell (spec_counts rs)"
  using assms
proof (induction rs rule: rev_induct)
  case Nil
  show ?case by (simp add: failCount_def spec_counts_def)
next
  case (snoc r rs)
  let ?k = "failureCode r"
  let ?obj = "map countCell (spec_counts rs)"
  have ih: "failCount rs = ?obj"
    using snoc by simp
  have inh: "inherited ?k = None"
    using snoc.prems by simp
  have keys: "fst ` set ?obj = failureCode ` set rs"
    using fst_spec_counts [of rs] by (simp add: countCell_def image_image split_def)
  show ?case
  proof (cases "?k \<in> failureCode ` set rs")
    case True
    then have pos: "length (filter (\<lambda>x. failureCode x = ?k) rs) \<noteq> 0"
      by (auto simp: filter_empty_conv)
    have p: "plusOne ?k ?obj = Count (Suc (length (filter (\<lambda>x. failureCode x = ?k) rs)))"
      using True pos by (simp add: plusOne_def map_of_countCells)
    have "assign ?k (plusOne ?k ?obj) ?obj
        = map (\<lambda>(k', v'). if k' = ?k then (k', plusOne ?k ?obj) else (k', v')) ?obj"
      using True keys by (simp add: assign_def)
    also have "\<dots> = map countCell (map (\<lambda>(k, n). if k = ?k then (k, Suc n) else (k, n)) (spec_counts rs))"
      unfolding p by (auto simp: countCell_def spec_counts_def)
    also have "\<dots> = map countCell (spec_counts (rs @ [r]))"
      using True by (simp add: spec_counts_snoc)
    finally show ?thesis
      by (simp add: failCount_snoc ih)
  next
    case False
    have p: "plusOne ?k ?obj = Count 1"
      using False inh by (simp add: plusOne_def map_of_countCells)
    have np: "?k \<noteq> ''__proto__''"
      using inh by (auto simp: inherited_def)
    have "assign ?k (plusOne ?k ?obj) ?obj = ?obj @ [(?k, Count 1)]"
      using False keys np by (simp add: assign_def p)
    also have "\<dots> = map countCell (spec_counts (rs @ [r]))"
      using False by (simp add: spec_counts_snoc countCell_def)
    finally show ?thesis
      by (simp add: failCount_snoc ih)
  qed
qed

lemma insort_key_map:
  "insort_key f (g x) (map g xs) = map g (insort_key (\<lambda>y. f (g y)) x xs)"
  by (induction xs) auto

lemma sort_key_map:
  "sort_key f (map g xs) = map g (sort_key (\<lambda>y. f (g y)) xs)"
  by (induction xs) (simp_all add: insort_key_map)

lemma Object_entries_countCells:
  "Object_entries (map countCell xs) = map countCell (Object_entries xs)"
  by (simp add: Object_entries_def filter_map sort_key_map comp_def countCell_def split_def)

lemma Object_entries_plain:
  assumes "\<forall>k\<in>fst ` set obj. \<not> isArrayIndex k"
  shows "Object_entries obj = obj"
proof -
  have "filter (\<lambda>(k, v). isArrayIndex k) obj = []"
    using assms by (auto simp: filter_empty_conv)
  moreover have "filter (\<lambda>(k, v). \<not> isArrayIndex k) obj = obj"
    using assms by (auto simp: filter_id_conv)
  ultimately show ?thesis
    by (simp add: Object_entries_def)
qed

lemma sort_js_countCells:
  "sort_js (\<lambda>a b. minus_js (toNumber (snd b)) (toNumber (snd a))) (map countCell xs)
     = map countCell (sort_key (\<lambda>(k, n). - int n) xs)"
proof -
  let ?f = "\<lambda>c. case snd c of Count n \<Rightarrow> - int n | Text t \<Rightarrow> 0"
  have "sort_js (\<lambda>a b. minus_js (toNumber (snd b)) (toNumber (snd a))) (map countCell xs)
      = sort_key ?f (map countCell xs)"
    by (intro sort_js_sort_key) (auto simp: countCell_def toNumber_def cmpResult_def)
  also have "\<dots> = map countCell (sort_key (\<lambda>y. ?f (countCell y)) xs)"
    by (rule sort_key_map)
  also have "(\<lambda>y. ?f (countCell y)) = (\<lambda>(k, n). - int n)"
    by (auto simp: countCell_def)
  finally show ?thesis .
qed

text \<open>
  Eleven repairs of the window with the codes \<open>A B A B C A B A B A B\<close>: the counts are
  \<open>A\<close> 5, \<open>B\<close> 5 and \<open>C\<close> 1, \<open>A\<close> is met before \<open>B\<close>, and the view lists \<open>A\<close> before \<open>B\<close>.
\<close>

lemma pareto_example_A_before_B:
  "pareto 1704456000000 sampleGetTime paretoRepairs
     = [(''A'', Count 5), (''B'', Count 5), (''C'', Count 1)]"
  by (simp add: pareto_def last30_def failCount_def assign_def plusOne_def inherited_def
      objectPrototypeFunctions_def Object_entries_def isArrayIndex_def isDigit_def numberOf_def
      sort_js_def toNumber_def cmpResult_def paretoRepairs_def sampleRepair_def sampleGetTime_def)

text \<open>
  C7 (as amended). The window of the Pareto view holds the repairs whose \<open>startAt\<close> is a
  valid date not more than 30 times 24 hours before now; the test has no upper bound,
  so a repair dated after now is in the window too. For every list of repairs in which
  no failure code of a repair of the window is the name of a member of
  \<open>Object.prototype\<close>: the Pareto view holds, for each failure code of the window, the
  number of repairs of the window with that code; the pairs are listed as
  \<open>Object.entries\<close> lists them (codes that are array indices first, in numeric order,
  then the other codes in the order of their first encounter), sorted descending by count
  with a stable sort, and cut to the first six. Where no code of the window is an array
  index, ties of the count are thus broken by the order of first encounter: with counts
  \<open>A\<close> 5, \<open>B\<close> 5 and \<open>C\<close> 1, and \<open>A\<close> met before \<open>B\<close>, the view lists \<open>A\<close> before \<open>B\<close>.
\<close>

theorem pareto_top6_stable:
  assumes "\<forall>r\<in>set repairs. inWindow30 now getTime r \<longrightarrow> inherited (failureCode r) = None"
  shows "pareto now getTime repairs
           = map countCell (take 6 (sort_key (\<lambda>(k, n). - int n)
               (Object_entries (spec_counts (filter (inWindow30 now getTime) repairs)))))
       \<and> ((\<forall>r\<in>set repairs. inWindow30 now getTime r \<longrightarrow> \<not> isArrayIndex (failureCode r)) \<longrightarrow>
            pareto now getTime repairs
              = map countCell (spec_pareto (filter (inWindow30 now getTime) repairs)))
       \<and> spec_counts (filter (inWindow30 now getTime) repairs)
           = map (\<lambda>k. (k, length (filter (\<lambda>r. inWindow30 now getTime r \<and> failureCode r = k) repairs)))
               (firstSeen (map failureCode (filter (inWindow30 now getTime) repairs)))
       \<and> sorted (map (\<lambda>(k, n). - int n)
            (sort_key (\<lambda>(k, n). - int n) (spec_counts (filter (inWindow30 now getTime) repairs))))
       \<and> (\<forall>m. filter (\<lambda>(k, n). n = m)
                 (sort_key (\<lambda>(k, n). - int n) (spec_counts (filter (inWindow30 now getTime) repairs)))
             = filter (\<lambda>(k, n). n = m) (spec_counts (filter (inWindow30 now getTime) repairs)))
       \<and> pareto 1704456000000 sampleGetTime paretoRepairs
           = [(''A'', Count 5), (''B'', Count 5), (''C'', Count 1)]"
proof -
  let ?rs = "filter (inWindow30 now getTime) repairs"
  have w: "last30 now getTime repairs = ?rs"
    by (rule last30_inWindow30)
  have a: "\<forall>r\<in>set ?rs. inherited (failureCode r) = None"
    using assms by simp
  have 1: "pareto now getTime repairs
           = map countCell (take 6 (sort_key (\<lambda>(k, n). - int n) (Object_entries (spec_counts ?rs))))"
    using a
    by (simp add: pareto_def w failCount_spec_counts Object_entries_countCells sort_js_countCells
        take_map)
  have 2: "pareto now getTime repairs = map countCell (spec_pareto ?rs)"
    if "\<forall>r\<in>set repairs. inWindow30 now getTime r \<longrightarrow> \<not> isArrayIndex (failureCode r)"
  proof -
    have "\<forall>k\<in>fst ` set (spec_counts ?rs). \<not> isArrayIndex k"
      using that by (simp add: fst_spec_counts)
    then have "Object_entries (spec_counts ?rs) = spec_counts ?rs"
      by (rule Object_entries_plain)
    with 1 show ?thesis
      by (simp add: spec_pareto_def)
  qed
  have 3: "sorted (map (\<lambda>(k, n). - int n) (sort_key (\<lambda>(k, n). - int n) (spec_counts ?rs)))"
    by simp
  have 4: "filter (\<lambda>(k, n). n = m) (sort_key (\<lambda>(k, n). - int n) (spec_counts ?rs))
             = filter (\<lambda>(k, n). n = m) (spec_counts ?rs)" for m
  proof -
    have e: "(\<lambda>(k, n). n = m) = (\<lambda>y. (case y of (k, n) \<Rightarrow> - int n) = - int m)"
      by auto
    show ?thesis
      unfolding e by (rule sort_key_stable)
  qed
  have 5: "spec_counts ?rs
           = map (\<lambda>k. (k, length (filter (\<lambda>r. inWindow30 now getTime r \<and> failureCode r = k) repairs)))
               (firstSeen (map failureCode ?rs))"
    by (simp add: spec_counts_def conj_commute)
  note 6 = pareto_example_A_before_B
  from 1 2 3 4 5 6 show ?thesis by blast
qed

text \<open>
  An instance at noon UTC of 5 January 2024. Of the repairs listed, the one started on
  1 November 2023 is older than the window and the one with an unreadable date has no
  place in it; the one started on 1 February 2024, after now, is counted.
\<close>

theorem pareto_top6_stable_witness:
  "pareto 1704456000000 sampleGetTime paretoWindowRepairs
     = [(''A'', Count 2), (''B'', Count 2), (''C'', Count 1)]
   \<and> filter (inWindow30 1704456000000 sampleGetTime) paretoWindowRepairs
     = [sampleRepair ''TV1'' ''2024-01-02T09:30:00.000Z'' ''A'' Repaired,
        sampleRepair ''TV2'' ''2024-01-03T12:00:00.000Z'' ''B'' Scrap,
        sampleRepair ''TV3'' ''2024-01-05T08:00:00.000Z'' ''C'' Repaired,
        sampleRepair ''TV5'' ''2024-02-01T00:00:00.000Z'' ''B'' NTF,
        sampleRepair ''TV7'' ''2024-01-01T00:00:00.000Z'' ''A'' Repaired]
   \<and> spec_counts (filter (inWindow30 1704456000000 sampleGetTime) paretoWindowRepairs)
     = [(''A'', 2), (''B'', 2), (''C'', 1)]"
proof -
  let ?w = "[sampleRepair ''TV1'' ''2024-01-02T09:30:00.000Z'' ''A'' Repaired,
        sampleRepair ''TV2'' ''2024-01-03T12:00:00.000Z'' ''B'' Scrap,
        sampleRepair ''TV3'' ''2024-01-05T08:00:00.000Z'' ''C'' Repaired,
        sampleRepair ''TV5'' ''2024-02-01T00:00:00.000Z'' ''B'' NTF,
        sampleRepair ''TV7'' ''2024-01-01T00:00:00.000Z'' ''A'' Repaired]"
  have l: "filter (inWindow30 1704456000000 sampleGetTime) paretoWindowRepairs = ?w"
    by (simp add: inWindow30_def paretoWindowRepairs_def sampleRepair_def sampleGetTime_def)
  have s: "spec_counts ?w = [(''A'', 2), (''B'', 2), (''C'', 1)]"
    by (simp add: spec_counts_def sampleRepair_def)
  have "\<forall>r\<in>set ?w. inherited (failureCode r) = None"
    by (simp add: sampleRepair_def inherited_def objectPrototypeFunctions_def)
  then have h: "\<forall>r\<in>set paretoWindowRepairs.
      inWindow30 1704456000000 sampleGetTime r \<longrightarrow> inherited (failureCode r) = None"
    unfolding l [symmetric] by simp
  have "\<forall>r\<in>set ?w. \<not> isArrayIndex (failureCode r)"
    by (simp add: sampleRepair_def isArrayIndex_def isDigit_def)
  then have i: "\<forall>r\<in>set paretoWindowRepairs.
      inWindow30 1704456000000 sampleGetTime r \<longrightarrow> \<not> isArrayIndex (failureCode r)"
    unfolding l [symmetric] by simp
  from pareto_top6_stable [OF h] i
  have "pareto 1704456000000 sampleGetTime paretoWindowRepairs
      = map countCell (spec_pareto (filter (inWindow30 1704456000000 sampleGetTime) paretoWindowRepairs))"
    by blast
  then have "pareto 1704456000000 sampleGetTime paretoWindowRepairs
      = [(''A'', Count 2), (''B'', Count 2), (''C'', Count 1)]"
    by (simp add: l s spec_pareto_def countCell_def)
  with l s show ?thesis by simp
qed

text \<open>
  C7 as stated fails in two ways. A repair dated after now is not in a rolling window of
  the last 30 days, and it is counted. And the order of a tie is not the order of
  encounter for a failure code that is an array index: \<open>B\<close> is met before \<open>7\<close>, both
  once, and \<open>7\<close> is listed first. For a code that names a member of \<open>Object.prototype\<close>
  the cell is not even a count.
\<close>

theorem pareto_tie_order_counterexample:
  "sampleGetTime (startAt (sampleRepair ''TV1'' ''2024-02-01T00:00:00.000Z'' ''A'' Repaired))
     = Some 1706745600000
   \<and> (1704456000000 :: int) < 1706745600000
   \<and> pareto 1704456000000 sampleGetTime
      [sampleRepair ''TV1'' ''2024-02-01T00:00:00.000Z'' ''A'' Repaired]
     = [(''A'', Count 1)]
   \<and> map failureCode (last30 1704456000000 sampleGetTime
      [sampleRepair ''TV1'' ''2024-01-02T09:30:00.000Z'' ''B'' Repaired,
       sampleRepair ''TV2'' ''2024-01-03T12:00:00.000Z'' ''7'' Repaired])
     = [''B'', ''7'']
   \<and> pareto 1704456000000 sampleGetTime
      [sampleRepair ''TV1'' ''2024-01-02T09:30:00.000Z'' ''B'' Repaired,
       sampleRepair ''TV2'' ''2024-01-03T12:00:00.000Z'' ''7'' Repaired]
     = [(''7'', Count 1), (''B'', Count 1)]
   \<and> pareto 1704456000000 sampleGetTime
      [sampleRepair ''TV1'' ''2024-01-02T09:30:00.000Z'' ''constructor'' Repaired]
     = [(''constructor'', Text ''function Object() { [native code] }1'')]"
  by (simp add: pareto_def last30_def failCount_def assign_def plusOne_def inherited_def
      objectPrototypeFunctions_def Object_entries_def isArrayIndex_def isDigit_def numberOf_def
      sort_js_def toNumber_def cmpResult_def sampleRepair_def sampleGetTime_def)

subsection \<open>C8: the CSV export\<close>

lemma undouble_plain: "c \<noteq> CHR 0x22 \<Longrightarrow> undouble (c # cs) = map_option ((#) c) (undouble cs)"
  by (cases cs) simp_all

lemma undouble_doubleQuotes: "undouble (doubleQuotes s) = Some s"
proof (induction s)
  case Nil
  show ?case by (simp add: doubleQuotes_def)
next
  case (Cons c s)
  have d: "doubleQuotes (c # s) = (if c = CHR 0x22 then [CHR 0x22, CHR 0x22] else [c]) @ doubleQuotes s"
    by (simp add: doubleQuotes_def)
  show ?case
  proof (cases "c = CHR 0x22")
    case True
    with Cons d show ?thesis by simp
  next
    case False
    with Cons d show ?thesis by (simp add: undouble_plain)
  qed
qed

lemma unquote_quoted: "unquote ([CHR 0x22] @ doubleQuotes s @ [CHR 0x22]) = Some s"
  by (simp add: unquote_def undouble_doubleQuotes butlast_append)

lemma unquote_spec_cell:
  "unquote (spec_cell digits r h)
     = Some (case map_of r h of Some v \<Rightarrow> String_js digits (nullish_empty v) | None \<Rightarrow> [])"
proof (cases "map_of r h")
  case None
  then show ?thesis by (simp add: spec_cell_def unquote_def)
next
  case (Some v)
  then show ?thesis using unquote_quoted [of "String_js digits (nullish_empty v)"]
    by (simp add: spec_cell_def)
qed

lemma escape_getProp:
  assumes "inherited h = None"
  shows "escape digits (getProp r h) = spec_cell digits r h"
proof (cases "map_of r h")
  case None
  with assms show ?thesis
    by (simp add: getProp_def escape_def spec_cell_def nullish_empty_def String_js_def doubleQuotes_def)
next
  case (Some v)
  then show ?thesis
    by (simp add: getProp_def escape_def spec_cell_def)
qed

lemma exportCsv_rows_keys:
  "\<forall>r\<in>set (exportCsv_rows intakes repairs). \<forall>k\<in>set (Object_keys r). inherited k = None"
  by (auto simp add: exportCsv_rows_def intakeRow_def repairRow_def Object_keys_def inherited_def
      objectPrototypeFunctions_def)

lemma floor_rat_divide_numeral:
  "\<lfloor>numeral a / numeral b :: rat\<rfloor> = numeral a div numeral b"
  "\<lfloor>1 / numeral b :: rat\<rfloor> = 1 div numeral b"
proof -
  show "\<lfloor>numeral a / numeral b :: rat\<rfloor> = numeral a div numeral b"
    using floor_divide_of_int_eq [of "numeral a" "numeral b", where ?'a = rat] by simp
  show "\<lfloor>1 / numeral b :: rat\<rfloor> = 1 div numeral b"
    using floor_divide_of_int_eq [of 1 "numeral b", where ?'a = rat] by simp
qed

lemma Number_toString_instances:
  "Number_toString digits NaN = ''NaN''"
  "Number_toString digits NegZero = ''0''"
  "Number_toString digits (Finite 0) = ''0''"
  "Number_toString digits (Finite (- 7)) = ''-7''"
  "Number_toString digits (Finite 9007199254740991) = ''9007199254740991''"
  "Number_toString digits (Finite 1000000000000000000000) = digits 1000000000000000000000"
  "Number_toString digits (Finite (- (1 / 2))) = ''-'' @ digits (1 / 2)"
  by (simp_all add: Number_toString_def floor_rat_divide_numeral)

text \<open>
  C8. For every non-empty array of flat records, in a browser, the export is the header
  line followed by one line per row, joined by line feeds. The header line is the
  comma-joined union of the keys of all rows, each key once, in the order in which they
  are first seen. Each line holds one cell per header: for a key the row has, the text
  of the value between double quotes with every inner double quote doubled, so that
  reading the cell back gives the text; for a key the row lacks, the empty string between
  double quotes. Rows \<open>[{a:1,b:2},{a:3}]\<close> give the header \<open>a,b\<close> and the second data row
  \<open>"3",""\<close>. Nothing is exported for an empty array.

  The records are those whose keys do not name a member of \<open>Object.prototype\<close>. Such are
  the rows of the one caller of the export, \<open>History.exportCsv\<close>, whatever the intakes
  and the repairs: their keys are fixed by object literals.
\<close>

theorem csv_export_layout:
  assumes "rows \<noteq> []"
    and "\<forall>r\<in>set rows. \<forall>k\<in>set (Object_keys r). inherited k = None"
  shows \<open>downloadCSV True digits filename rows =
           Some (filename,
             join [CHR 0x0A]
               (join '','' (spec_headers rows)
                # map (\<lambda>r. join '','' (map (spec_cell digits r) (spec_headers rows))) rows))
       \<and> distinct (spec_headers rows)
       \<and> set (spec_headers rows) = (\<Union>r\<in>set rows. set (Object_keys r))
       \<and> (\<forall>r h. unquote (spec_cell digits r h)
             = Some (case map_of r h of Some v \<Rightarrow> String_js digits (nullish_empty v) | None \<Rightarrow> []))
       \<and> downloadCSV True digits filename
             [[(''a'', JNumber (Finite 1)), (''b'', JNumber (Finite 2))], [(''a'', JNumber (Finite 3))]]
           = Some (filename, ''a,b\<newline>"1","2"\<newline>"3",""'')
       \<and> downloadCSV True digits filename [] = None
       \<and> (\<forall>r\<in>set (exportCsv_rows intakes repairs). \<forall>k\<in>set (Object_keys r). inherited k = None)\<close>
proof -
  have 3: "set (spec_headers rows) = (\<Union>r\<in>set rows. set (Object_keys r))"
    by (simp add: spec_headers_def)
  have 2: "distinct (spec_headers rows)"
    by (simp add: spec_headers_def)
  have i: "inherited h = None" if "h \<in> set (spec_headers rows)" for h
    using that assms(2) unfolding 3 by blast
  have c: "map (\<lambda>h. escape digits (getProp r h)) (spec_headers rows)
         = map (spec_cell digits r) (spec_headers rows)" for r
    using i by (simp add: escape_getProp)
  have 1: "downloadCSV True digits filename rows =
           Some (filename,
             join [CHR 0x0A]
               (join '','' (spec_headers rows)
                # map (\<lambda>r. join '','' (map (spec_cell digits r) (spec_headers rows))) rows))"
    using assms(1) unfolding c [symmetric]
    by (simp add: downloadCSV_def spec_headers_def Array_from_Set_firstSeen Let_def)
  have 4: "unquote (spec_cell digits r h)
        = Some (case map_of r h of Some v \<Rightarrow> String_js digits (nullish_empty v) | None \<Rightarrow> [])" for r h
    by (rule unquote_spec_cell)
  have 5: \<open>downloadCSV True digits filename
             [[(''a'', JNumber (Finite 1)), (''b'', JNumber (Finite 2))], [(''a'', JNumber (Finite 3))]]
           = Some (filename, ''a,b\<newline>"1","2"\<newline>"3",""'')\<close>
    by (simp add: downloadCSV_def Array_from_Set_def Set_add_def Object_keys_def getProp_def
        inherited_def objectPrototypeFunctions_def escape_def String_js_def Number_toString_def
        nullish_empty_def doubleQuotes_def)
  have 6: "downloadCSV True digits filename [] = None"
    by (simp add: downloadCSV_def)
  note 7 = exportCsv_rows_keys [of intakes repairs]
  from 1 2 3 4 5 6 7 show ?thesis by blast
qed

text \<open>
  An instance: the export of the history with one intake and one repair. The size of the
  intake is 42.5, its note holds two double quotes, and the repair row lacks the keys of
  the intake row.
\<close>

theorem csv_export_layout_witness:
  \<open>exportCsv True sampleDigits [csvIntake] [csvRepair]
    = Some (''repairs_history.csv'',
        ''kind,serial,model,family,sizeIn,source,reason,createdAt,notes,failure,actions,disposition,startAt,endAt\<newline>"intake","TV1","43R6A5R","Abilene","42.5","Amazon","No power","2024-01-01T00:00:00.000Z","say ""hi""","","","","",""\<newline>"repair","TV1","","","","","","","","OTHER","RESEAT_FFC|REFLASH","Repaired","2024-01-02T09:30:00.000Z",""'')
   \<and> spec_headers (exportCsv_rows [csvIntake] [csvRepair])
    = [''kind'', ''serial'', ''model'', ''family'', ''sizeIn'', ''source'', ''reason'', ''createdAt'',
       ''notes'', ''failure'', ''actions'', ''disposition'', ''startAt'', ''endAt'']\<close>
proof -
  let ?rows = "exportCsv_rows [csvIntake] [csvRepair]"
  have ne: "?rows \<noteq> []"
    by (simp add: exportCsv_rows_def)
  have k: "\<forall>r\<in>set ?rows. \<forall>k\<in>set (Object_keys r). inherited k = None"
    by (simp add: exportCsv_rows_def intakeRow_def repairRow_def Object_keys_def inherited_def
        objectPrototypeFunctions_def)
  have h: "spec_headers ?rows
    = [''kind'', ''serial'', ''model'', ''family'', ''sizeIn'', ''source'', ''reason'', ''createdAt'',
       ''notes'', ''failure'', ''actions'', ''disposition'', ''startAt'', ''endAt'']"
    by (simp add: spec_headers_def exportCsv_rows_def intakeRow_def repairRow_def Object_keys_def)
  have n: "Number_toString sampleDigits (Finite (85 / 2)) = ''42.5''"
    by (simp add: Number_toString_def sampleDigits_def floor_rat_divide_numeral)
  have r: "?rows = [intakeRow csvIntake, repairRow csvRepair]"
    by (simp add: exportCsv_rows_def)
  have t: \<open>join [CHR 0x0A]
               (join '','' (spec_headers ?rows)
                # map (\<lambda>r. join '','' (map (spec_cell sampleDigits r) (spec_headers ?rows))) ?rows)
     = ''kind,serial,model,family,sizeIn,source,reason,createdAt,notes,failure,actions,disposition,startAt,endAt\<newline>"intake","TV1","43R6A5R","Abilene","42.5","Amazon","No power","2024-01-01T00:00:00.000Z","say ""hi""","","","","",""\<newline>"repair","TV1","","","","","","","","OTHER","RESEAT_FFC|REFLASH","Repaired","2024-01-02T09:30:00.000Z",""''\<close>
    unfolding h unfolding r
    by (simp add: intakeRow_def repairRow_def spec_cell_def String_js_def n
        nullish_empty_def doubleQuotes_def orEmpty_def
        dispositionString_def csvIntake_def csvRepair_def)
  from csv_export_layout [OF ne k, of sampleDigits "''repairs_history.csv''"]
  have "downloadCSV True sampleDigits ''repairs_history.csv'' ?rows =
           Some (''repairs_history.csv'',
             join [CHR 0x0A]
               (join '','' (spec_headers ?rows)
                # map (\<lambda>r. join '','' (map (spec_cell sampleDigits r) (spec_headers ?rows))) ?rows))"
    by blast
  then have \<open>exportCsv True sampleDigits [csvIntake] [csvRepair]
    = Some (''repairs_history.csv'',
        ''kind,serial,model,family,sizeIn,source,reason,createdAt,notes,failure,actions,disposition,startAt,endAt\<newline>"intake","TV1","43R6A5R","Abilene","42.5","Amazon","No power","2024-01-01T00:00:00.000Z","say ""hi""","","","","",""\<newline>"repair","TV1","","","","","","","","OTHER","RESEAT_FFC|REFLASH","Repaired","2024-01-02T09:30:00.000Z",""'')\<close>
    unfolding t exportCsv_def .
  with h show ?thesis by simp
qed

subsection \<open>C9: the repair form refuses an empty serial\<close>


text \<open>
  C9. For every state of the repairs collection, submitting the repair form with an
  empty serial raises the alert \<open>Serial is required\<close> and submits nothing: no repair is
  appended, the collection is unchanged, and the form keeps its state.
\<close>

theorem save_empty_serial_alerts:
  assumes "form_serial f = []"
  shows "save toISOString nowText f repairs = (Alert ''Serial is required'', f, repairs)"
  using assms by (simp add: save_def)

theorem save_empty_serial_alerts_witness:
  "save sampleToISOString ''2024-01-03T12:00'' (sampleForm [] ''PSU_NO_POWER'') sampleRepairs
     = (Alert ''Serial is required'', sampleForm [] ''PSU_NO_POWER'', sampleRepairs)"
proof -
  have "form_serial (sampleForm [] ''PSU_NO_POWER'') = []"
    by (simp add: sampleForm_def)
  then show ?thesis
    by (rule save_empty_serial_alerts)
qed

subsection \<open>C10: a saved repair has a failure code\<close>


text \<open>
  C10. Whatever the form holds, \<open>save\<close> either leaves the repairs collection as it
  was or appends one repair whose failure code is not empty: the code typed or picked,
  and \<open>OTHER\<close> when the failure-code input was left empty. With a serial and valid dates
  the repair is appended.
\<close>

theorem save_failureCode_never_empty:
  "(snd (snd (save toISOString nowText f repairs)) = repairs
      \<and> fst (save toISOString nowText f repairs) \<noteq> Submitted
    \<or> (\<exists>r. snd (snd (save toISOString nowText f repairs)) = repairs @ [r]
          \<and> fst (save toISOString nowText f repairs) = Submitted
          \<and> failureCode r \<noteq> []
          \<and> failureCode r = (if form_failureCode f = [] then ''OTHER'' else form_failureCode f)))
   \<and> (form_serial f \<noteq> [] \<and> toISOString (form_startAt f) \<noteq> None
        \<and> (form_endAt f = [] \<or> toISOString (form_endAt f) \<noteq> None)
      \<longrightarrow> fst (save toISOString nowText f repairs) = Submitted)"
  by (auto simp: save_def setRepairs_onSaved_def split: option.splits)

theorem save_failureCode_never_empty_witness:
  "save sampleToISOString ''2024-01-03T12:00'' (sampleForm ''TV1'' []) []
     = (Submitted,
        \<lparr>form_serial = [], form_startAt = ''2024-01-03T12:00'', form_endAt = [],
           form_technician = [], form_failureCode = [], form_actions = [],
           form_disposition = Repaired, form_notes = [], form_photos = []\<rparr>,
        [\<lparr>Repair.serial = ''TV1'', startAt = ''2024-01-02T09:30:00.000Z'', endAt = None,
            technician = Some ''T-7'', failureCode = ''OTHER'', actions = [''RESEAT_FFC''],
            disposition = Repaired, notes_f = None, photos = []\<rparr>])
   \<and> fst (save sampleToISOString ''2024-01-03T12:00'' (sampleForm ''TV1'' []) []) = Submitted"
proof -
  have e: "save sampleToISOString ''2024-01-03T12:00'' (sampleForm ''TV1'' []) []
     = (Submitted,
        \<lparr>form_serial = [], form_startAt = ''2024-01-03T12:00'', form_endAt = [],
           form_technician = [], form_failureCode = [], form_actions = [],
           form_disposition = Repaired, form_notes = [], form_photos = []\<rparr>,
        [\<lparr>Repair.serial = ''TV1'', startAt = ''2024-01-02T09:30:00.000Z'', endAt = None,
            technician = Some ''T-7'', failureCode = ''OTHER'', actions = [''RESEAT_FFC''],
            disposition = Repaired, notes_f = None, photos = []\<rparr>])"
    by (simp add: save_def sampleForm_def sampleToISOString_def setRepairs_onSaved_def
        orUndefined_def)
  have "form_serial (sampleForm ''TV1'' []) \<noteq> []
      \<and> sampleToISOString (form_startAt (sampleForm ''TV1'' [])) \<noteq> None
      \<and> (form_endAt (sampleForm ''TV1'' []) = []
          \<or> sampleToISOString (form_endAt (sampleForm ''TV1'' [])) \<noteq> None)"
    by (simp add: sampleForm_def sampleToISOString_def)
  with save_failureCode_never_empty [of sampleToISOString "''2024-01-03T12:00''" "sampleForm ''TV1'' []" "[]"]
  have "fst (save sampleToISOString ''2024-01-03T12:00'' (sampleForm ''TV1'' []) []) = Submitted"
    by blast
  with e show ?thesis by simp
qed

end
